theory Spec2Isabelle
  imports Main "HOL-Library.Word" "HOL-Library.AList"
begin

section \<open>GOD (Grounded Object Data): the codec of package god\<close>

text \<open>
  A shallow embedding of the Go package \<^verbatim>\<open>god\<close>: the scanner (\<^verbatim>\<open>parser\<close> and its
  methods), the decoder (\<^verbatim>\<open>Unmarshal\<close>, \<^verbatim>\<open>decodeValue\<close>, ...) and the encoder
  (\<^verbatim>\<open>Marshal\<close>, \<^verbatim>\<open>MarshalBeautify\<close>, \<^verbatim>\<open>encodeValue\<close>, ...).

  Bytes are \<^typ>\<open>char\<close> (8 bits), a \<^verbatim>\<open>[]byte\<close> or Go \<^verbatim>\<open>string\<close> is a \<^typ>\<open>string\<close>.
  Every Go \<^verbatim>\<open>error\<close> return is a value of type \<open>error\<close> on the left of a sum.
\<close>

abbreviation dq :: char where "dq \<equiv> CHR 0x22"
abbreviation bsl :: char where "bsl \<equiv> CHR 0x5C"
abbreviation LF :: char where "LF \<equiv> CHR 0x0A"
abbreviation CR :: char where "CR \<equiv> CHR 0x0D"
abbreviation TAB :: char where "TAB \<equiv> CHR 0x09"
abbreviation NUL :: char where "NUL \<equiv> CHR 0x00"

subsection \<open>Errors\<close>

text \<open>
  One constructor per \<^verbatim>\<open>errors.New\<close> / \<^verbatim>\<open>fmt.Errorf\<close> site of the package, and one for
  the errors of package \<^verbatim>\<open>strconv\<close> (\<^verbatim>\<open>*NumError\<close> with \<^verbatim>\<open>ErrSyntax\<close> or \<^verbatim>\<open>ErrRange\<close>).
  \<open>RuntimePanic\<close> is not a returned error: it is the run-time panic "slice bounds out of
  range" of a slice expression, which no function of the package recovers from.
\<close>

datatype error =
    TargetNotPointer
  | UnsupportedType
  | UnsupportedTarget
  | ExpectedStructOpen char
  | ExpectedEq string
  | ExpectedStructClose
  | ExpectedMapOpen char
  | ExpectedMapEq string char nat
  | ExpectedMapClose
  | ExpectedListOpen char
  | ExpectedListClose
  | ExpectedTableOpen char
  | TableNotStructSlice
  | UnsupportedFieldType
  | ExpectedQuote
  | UnterminatedEscape
  | UnterminatedString
  | ExpectedTripleQuote
  | UnterminatedTriple
  | ExpectedNumber
  | InvalidBoolean string
  | GenericTable
  | NumSyntax string
  | NumRange string
  | RuntimePanic

subsection \<open>The scanner\<close>

text \<open>
  \<^verbatim>\<open>type parser struct { src []byte; pos int }\<close>. The position is never negative, so it
  is a \<^typ>\<open>nat\<close>.
\<close>

record parser =
  src :: string
  pos :: nat

definition eof :: "parser \<Rightarrow> bool" where
  "eof p = (length (src p) \<le> pos p)"

definition peek :: "parser \<Rightarrow> char" where
  "peek p = (if eof p then NUL else src p ! pos p)"

text \<open>\<^verbatim>\<open>next\<close>: the byte read and the parser after it.\<close>

definition next_p :: "parser \<Rightarrow> char \<times> parser" where
  "next_p p = (if eof p then (NUL, p) else (src p ! pos p, p\<lparr>pos := pos p + 1\<rparr>))"

definition isSpaceB :: "char \<Rightarrow> bool" where
  "isSpaceB c = (c = CHR '' '' \<or> c = LF \<or> c = CR \<or> c = TAB)"

function skipSpaces :: "parser \<Rightarrow> parser" where
  "skipSpaces p =
     (if \<not> eof p \<and> isSpaceB (peek p) then skipSpaces (p\<lparr>pos := pos p + 1\<rparr>) else p)"
  by pat_completeness auto
termination
  by (relation "measure (\<lambda>p. length (src p) - pos p)") (auto simp: eof_def)

declare skipSpaces.simps [simp del]

text \<open>The delimiter test of \<^verbatim>\<open>readBareToken\<close>.\<close>

definition isDelim :: "char \<Rightarrow> bool" where
  "isDelim c = (c = CHR '' '' \<or> c = LF \<or> c = CR \<or> c = TAB \<or> c = CHR ''='' \<or> c = CHR '';''
     \<or> c = CHR ''{'' \<or> c = CHR ''}'' \<or> c = CHR ''['' \<or> c = CHR '']'' \<or> c = CHR ''(''
     \<or> c = CHR '')'' \<or> c = CHR '','' \<or> c = CHR '':'')"

text \<open>
  \<^verbatim>\<open>strings.TrimSpace\<close> (Go standard library): removes leading and trailing white space as
  Unicode defines it. On a byte string that is every leading and trailing occurrence of
  the UTF-8 encoding of a rune with property White_Space: U+0009..U+000D, U+0020, U+0085,
  U+00A0, U+1680, U+2000..U+200A, U+2028, U+2029, U+202F, U+205F, U+3000.
\<close>

definition spaceRunes :: "string list" where
  "spaceRunes =
     [[CHR 0x09], [CHR 0x0A], [CHR 0x0B], [CHR 0x0C], [CHR 0x0D], [CHR 0x20],
      [CHR 0xC2, CHR 0x85], [CHR 0xC2, CHR 0xA0], [CHR 0xE1, CHR 0x9A, CHR 0x80],
      [CHR 0xE2, CHR 0x80, CHR 0x80], [CHR 0xE2, CHR 0x80, CHR 0x81],
      [CHR 0xE2, CHR 0x80, CHR 0x82], [CHR 0xE2, CHR 0x80, CHR 0x83],
      [CHR 0xE2, CHR 0x80, CHR 0x84], [CHR 0xE2, CHR 0x80, CHR 0x85],
      [CHR 0xE2, CHR 0x80, CHR 0x86], [CHR 0xE2, CHR 0x80, CHR 0x87],
      [CHR 0xE2, CHR 0x80, CHR 0x88], [CHR 0xE2, CHR 0x80, CHR 0x89],
      [CHR 0xE2, CHR 0x80, CHR 0x8A], [CHR 0xE2, CHR 0x80, CHR 0xA8],
      [CHR 0xE2, CHR 0x80, CHR 0xA9], [CHR 0xE2, CHR 0x80, CHR 0xAF],
      [CHR 0xE2, CHR 0x81, CHR 0x9F], [CHR 0xE3, CHR 0x80, CHR 0x80]]"

definition isPrefixOf :: "string \<Rightarrow> string \<Rightarrow> bool" where
  "isPrefixOf e s = (take (length e) s = e)"

definition isSuffixOf :: "string \<Rightarrow> string \<Rightarrow> bool" where
  "isSuffixOf e s = (length e \<le> length s \<and> drop (length s - length e) s = e)"

lemma spaceRunes_nonempty: "e \<in> set spaceRunes \<Longrightarrow> e \<noteq> []"
  by (auto simp: spaceRunes_def)

lemma find_space_prefix_shorter:
  assumes "List.find (\<lambda>e. isPrefixOf e s) spaceRunes = Some e"
  shows "length (drop (length e) s) < length s"
proof -
  from assms have e: "e \<in> set spaceRunes" and pre: "isPrefixOf e s"
    by (auto simp: find_Some_iff)
  from e have "e \<noteq> []" by (rule spaceRunes_nonempty)
  with pre have "s \<noteq> []" by (auto simp: isPrefixOf_def)
  with \<open>e \<noteq> []\<close> show ?thesis by simp
qed

lemma find_space_suffix_shorter:
  assumes "List.find (\<lambda>e. isSuffixOf e s) spaceRunes = Some e"
  shows "length (take (length s - length e) s) < length s"
proof -
  from assms have e: "e \<in> set spaceRunes" and suf: "isSuffixOf e s"
    by (auto simp: find_Some_iff)
  from e have "e \<noteq> []" by (rule spaceRunes_nonempty)
  with suf have "s \<noteq> []" by (auto simp: isSuffixOf_def)
  with \<open>e \<noteq> []\<close> show ?thesis by simp
qed

function trimLeftSpace :: "string \<Rightarrow> string" where
  "trimLeftSpace s =
     (case List.find (\<lambda>e. isPrefixOf e s) spaceRunes of
        None \<Rightarrow> s
      | Some e \<Rightarrow> trimLeftSpace (drop (length e) s))"
  by pat_completeness auto
termination
  by (relation "measure length") (auto dest: find_space_prefix_shorter)

function trimRightSpace :: "string \<Rightarrow> string" where
  "trimRightSpace s =
     (case List.find (\<lambda>e. isSuffixOf e s) spaceRunes of
        None \<Rightarrow> s
      | Some e \<Rightarrow> trimRightSpace (take (length s - length e) s))"
  by pat_completeness auto
termination
  by (relation "measure length") (auto dest: find_space_suffix_shorter)

declare trimLeftSpace.simps [simp del] trimRightSpace.simps [simp del]

definition TrimSpace :: "string \<Rightarrow> string" where
  "TrimSpace s = trimRightSpace (trimLeftSpace s)"

text \<open>\<^verbatim>\<open>readBareToken\<close>: the loop with its buffer, then the method.\<close>

function readBareLoop :: "parser \<Rightarrow> string \<Rightarrow> string \<times> parser" where
  "readBareLoop p buf =
     (if \<not> eof p then
        (if isDelim (peek p) then (buf, p)
         else (case next_p p of (b, p') \<Rightarrow> readBareLoop p' (buf @ [b])))
      else (buf, p))"
  by pat_completeness auto
termination
  by (relation "measure (\<lambda>(p, buf). length (src p) - pos p)")
     (auto simp: eof_def next_p_def)

declare readBareLoop.simps [simp del]

definition readBareToken :: "parser \<Rightarrow> string \<times> parser" where
  "readBareToken p =
     (case readBareLoop (skipSpaces p) [] of (buf, p') \<Rightarrow> (TrimSpace buf, p'))"

text \<open>
  \<^verbatim>\<open>strings.ContainsRune(seps, rune(b))\<close> for a byte \<open>b\<close> (Go standard library): a rune below
  0x80 is looked up as a byte; the runes U+0080..U+00FF are looked up by their two-byte
  UTF-8 encoding.
\<close>

fun containsSub :: "string \<Rightarrow> string \<Rightarrow> bool" where
  "containsSub [] e = (e = [])"
| "containsSub (c # s) e = (isPrefixOf e (c # s) \<or> containsSub s e)"

definition ContainsRune :: "string \<Rightarrow> char \<Rightarrow> bool" where
  "ContainsRune seps b =
     (if of_char b < (0x80 :: nat) then b \<in> set seps
      else containsSub seps
             [char_of (0xC0 + of_char b div (0x40 :: nat)),
              char_of (0x80 + of_char b mod (0x40 :: nat))])"

function readUntilLoop :: "string \<Rightarrow> parser \<Rightarrow> parser" where
  "readUntilLoop seps p =
     (if \<not> eof p then
        (if ContainsRune seps (peek p) then p
         else readUntilLoop seps (p\<lparr>pos := pos p + 1\<rparr>))
      else p)"
  by pat_completeness auto
termination
  by (relation "measure (\<lambda>(seps, p). length (src p) - pos p)") (auto simp: eof_def)

declare readUntilLoop.simps [simp del]

definition readUntilAny :: "string \<Rightarrow> parser \<Rightarrow> string \<times> parser" where
  "readUntilAny seps p =
     (let start = pos p; p' = readUntilLoop seps p
      in (take (pos p' - start) (drop start (src p')), p'))"

text \<open>
  \<^verbatim>\<open>peekAhead(n)\<close>. The argument is a Go \<^verbatim>\<open>int\<close>, 64 bits wide: the sum \<^verbatim>\<open>p.pos+n\<close> wraps
  around (\<open>wrap64\<close>; 9223372036854775808 is \<open>2 ^ 63\<close> and 18446744073709551616 is
  \<open>2 ^ 64\<close>). The slice expressions \<^verbatim>\<open>p.src[p.pos:]\<close> and \<^verbatim>\<open>p.src[p.pos:p.pos+n]\<close> panic when
  the low bound is beyond the length of the input or beyond the high bound, which is so
  for a negative \<open>n\<close> and for a sum that has wrapped around. The panic is the result
  \<open>Inl RuntimePanic\<close>.
\<close>

definition wrap64 :: "int \<Rightarrow> int" where
  "wrap64 x = (x + 9223372036854775808) mod 18446744073709551616 - 9223372036854775808"

definition peekAhead :: "parser \<Rightarrow> int \<Rightarrow> error + string" where
  "peekAhead p n =
     (let e = wrap64 (int (pos p) + n)
      in if e > int (length (src p)) then
           (if pos p \<le> length (src p) then Inr (drop (pos p) (src p)) else Inl RuntimePanic)
         else
           (if e < int (pos p) then Inl RuntimePanic
            else Inr (take (nat e - pos p) (drop (pos p) (src p)))))"

subsection \<open>Strings\<close>

text \<open>
  The parse functions return the parser next to their result, also when the result is an
  error: \<^verbatim>\<open>skipValue\<close> drops the error of \<^verbatim>\<open>parseStringValue\<close> and goes on from the
  position the failed parse left. A panic of \<^verbatim>\<open>peekAhead\<close> ends the function that called
  it, and every caller above: it is passed on as \<open>Inl RuntimePanic\<close>.
\<close>

function parseStringLoop :: "parser \<Rightarrow> string \<Rightarrow> (error + string) \<times> parser" where
  "parseStringLoop p buf =
     (if \<not> eof p then
        (case next_p p of (c, p1) \<Rightarrow>
           if c = bsl then
             (if eof p1 then (Inl UnterminatedEscape, p1)
              else (case next_p p1 of (nc, p2) \<Rightarrow>
                parseStringLoop p2
                  (buf @ [if nc = CHR ''n'' then LF
                          else if nc = CHR ''r'' then CR
                          else if nc = CHR ''t'' then TAB
                          else if nc = bsl then bsl
                          else if nc = dq then dq
                          else nc])))
           else if c = dq then (Inr buf, p1)
           else parseStringLoop p1 (buf @ [c]))
      else (Inl UnterminatedString, p))"
  by pat_completeness auto
termination
  by (relation "measure (\<lambda>(p, buf). length (src p) - pos p)")
     (auto simp: eof_def next_p_def split: if_splits)

declare parseStringLoop.simps [simp del]

definition parseString :: "parser \<Rightarrow> (error + string) \<times> parser" where
  "parseString p =
     (case next_p p of (c, p1) \<Rightarrow>
        if c \<noteq> dq then (Inl ExpectedQuote, p1) else parseStringLoop p1 [])"

function tripleLoop :: "nat \<Rightarrow> parser \<Rightarrow> (error + string) \<times> parser" where
  "tripleLoop start p =
     (if \<not> eof p then
        (case peekAhead p 3 of
           Inl e \<Rightarrow> (Inl e, p)
         | Inr s \<Rightarrow>
             if s = [dq, dq, dq]
             then (Inr (take (pos p - start) (drop start (src p))), p\<lparr>pos := pos p + 3\<rparr>)
             else tripleLoop start (p\<lparr>pos := pos p + 1\<rparr>))
      else (Inl UnterminatedTriple, p))"
  by pat_completeness auto
termination
  by (relation "measure (\<lambda>(start, p). length (src p) - pos p)") (auto simp: eof_def)

declare tripleLoop.simps [simp del]

definition parseTripleString :: "parser \<Rightarrow> (error + string) \<times> parser" where
  "parseTripleString p =
     (case peekAhead p 3 of
        Inl e \<Rightarrow> (Inl e, p)
      | Inr s \<Rightarrow>
          if s \<noteq> [dq, dq, dq] then (Inl ExpectedTripleQuote, p)
          else (let p1 = p\<lparr>pos := pos p + 3\<rparr> in tripleLoop (pos p1) p1))"

definition parseStringValue :: "parser \<Rightarrow> (error + string) \<times> parser" where
  "parseStringValue p =
     (if peek p = dq then
        (case peekAhead p 3 of
           Inl e \<Rightarrow> (Inl e, p)
         | Inr s \<Rightarrow> if s = [dq, dq, dq] then parseTripleString p else parseString p)
      else (case readBareToken p of (t, p') \<Rightarrow> (Inr t, p')))"

subsection \<open>Skipping a value\<close>

text \<open>
  \<^verbatim>\<open>skipValue\<close> has the same loop three times, for \<^verbatim>\<open>{}\<close>, \<^verbatim>\<open>[]\<close> and \<^verbatim>\<open>()\<close>; \<open>skipLoop\<close>
  is that loop with the opening and the closing byte as arguments. Every return of
  \<^verbatim>\<open>skipValue\<close> is \<^verbatim>\<open>nil\<close>; the result type keeps the \<^verbatim>\<open>error\<close> of the signature, and
  a panic under \<^verbatim>\<open>parseStringValue\<close>, which is not a returned error, is passed on.
\<close>

function skipLoop :: "char \<Rightarrow> char \<Rightarrow> parser \<Rightarrow> int \<Rightarrow> error + parser" where
  "skipLoop opn cls p depth =
     (if \<not> eof p then
        (if peek p = opn then skipLoop opn cls (snd (next_p p)) (depth + 1)
         else if peek p = cls then
           (let depth' = depth - 1; p' = snd (next_p p)
            in if depth' = 0 then Inr p' else skipLoop opn cls p' depth')
         else skipLoop opn cls (snd (next_p p)) depth)
      else Inr p)"
  by pat_completeness auto
termination
  by (relation "measure (\<lambda>(opn, cls, p, depth). length (src p) - pos p)")
     (auto simp: eof_def next_p_def)

declare skipLoop.simps [simp del]

definition skipValue :: "parser \<Rightarrow> error + parser" where
  "skipValue p =
     (let p0 = skipSpaces p; c = peek p0
      in if c = CHR ''{'' then skipLoop (CHR ''{'') (CHR ''}'') p0 0
         else if c = CHR ''['' then skipLoop (CHR ''['') (CHR '']'') p0 0
         else if c = CHR ''('' then skipLoop (CHR ''('') (CHR '')'') p0 0
         else if c = dq then
           (case parseStringValue p0 of (r, p') \<Rightarrow>
              if r = Inl RuntimePanic then Inl RuntimePanic else Inr p')
         else Inr (snd (readBareToken p0)))"

subsection \<open>Types and values\<close>

text \<open>
  The decoder and the encoder work on \<^verbatim>\<open>reflect.Value\<close>: a value that knows its type.
  \<open>gtype\<close> is \<^verbatim>\<open>reflect.Type\<close> as far as the package looks at it, \<open>gval\<close> is
  \<^verbatim>\<open>reflect.Value\<close>: every constructor is a \<^verbatim>\<open>reflect.Kind\<close> and carries what
  \<^verbatim>\<open>Type()\<close> needs (the width of a number, the element type of a slice, a pointer or a
  map, the descriptor of every struct field).

  \<^item> \<open>finfo\<close> is \<^verbatim>\<open>reflect.StructField\<close>: the identifier, the value of the \<^verbatim>\<open>god\<close> tag
    (\<^verbatim>\<open>field.Tag.Get("god")\<close>, empty when there is none) and \<^verbatim>\<open>IsExported()\<close>.
  \<^item> Integers carry their width in bits (8, 16, 32, 64; \<^verbatim>\<open>int\<close> and \<^verbatim>\<open>uint\<close> are 64), floats
    too (32, 64); a float is the bit pattern of the \<^verbatim>\<open>float64\<close> that \<^verbatim>\<open>Value.Float()\<close> returns.
  \<^item> Maps have string keys (\<^verbatim>\<open>decodeMap\<close> calls \<^verbatim>\<open>keyVal.SetString\<close>); the entries are in
    the order in which \<^verbatim>\<open>MapRange\<close> visits them in the call at hand.
  \<^item> A nil slice and an empty slice are the same value here, as are a nil map and an empty
    map: the package only reads their \<^verbatim>\<open>Len()\<close>.
  \<^item> A pointer owns what it points to (a value is a tree: no cycles, no sharing).
  \<^item> \<open>VOther\<close> stands for the kinds the package has no case for (chan, func, complex,
    uintptr, unsafe pointer).
\<close>

record finfo =
  fname :: string
  ftag :: string
  fexported :: bool

datatype gtype =
    TString
  | TInt nat
  | TUint nat
  | TFloat nat
  | TBool
  | TStruct "(finfo \<times> gtype) list"
  | TSlice gtype
  | TArray nat gtype
  | TMap gtype
  | TPtr gtype
  | TIface
  | TOther

datatype gval =
    VString string
  | VInt nat int
  | VUint nat int
  | VFloat nat "64 word"
  | VBool bool
  | VStruct "(finfo \<times> gval) list"
  | VSlice gtype "gval list"
  | VArray gtype "gval list"
  | VMap gtype "(string \<times> gval) list"
  | VPtr gtype "gval option"
  | VIface "gval option"
  | VOther

text \<open>\<^verbatim>\<open>Value.Type()\<close>.\<close>

fun typeOf :: "gval \<Rightarrow> gtype" where
  "typeOf (VString s) = TString"
| "typeOf (VInt w i) = TInt w"
| "typeOf (VUint w u) = TUint w"
| "typeOf (VFloat w f) = TFloat w"
| "typeOf (VBool b) = TBool"
| "typeOf (VStruct fvs) = TStruct (map (\<lambda>(fi, v). (fi, typeOf v)) fvs)"
| "typeOf (VSlice t xs) = TSlice t"
| "typeOf (VArray t xs) = TArray (length xs) t"
| "typeOf (VMap t es) = TMap t"
| "typeOf (VPtr t x) = TPtr t"
| "typeOf (VIface x) = TIface"
| "typeOf VOther = TOther"

text \<open>\<^verbatim>\<open>reflect.Zero(t)\<close>, which is also \<^verbatim>\<open>reflect.New(t).Elem()\<close>: the zero value of a type.\<close>

fun zeroVal :: "gtype \<Rightarrow> gval" where
  "zeroVal TString = VString []"
| "zeroVal (TInt w) = VInt w 0"
| "zeroVal (TUint w) = VUint w 0"
| "zeroVal (TFloat w) = VFloat w 0"
| "zeroVal TBool = VBool False"
| "zeroVal (TStruct fts) = VStruct (map (\<lambda>(fi, t). (fi, zeroVal t)) fts)"
| "zeroVal (TSlice t) = VSlice t []"
| "zeroVal (TArray n t) = VArray t (replicate n (zeroVal t))"
| "zeroVal (TMap t) = VMap t []"
| "zeroVal (TPtr t) = VPtr t None"
| "zeroVal TIface = VIface None"
| "zeroVal TOther = VOther"

text \<open>\<^verbatim>\<open>SetInt\<close> and \<^verbatim>\<open>SetUint\<close> store the low \<open>w\<close> bits of their 64-bit argument.\<close>

definition wrapInt :: "nat \<Rightarrow> int \<Rightarrow> int" where
  "wrapInt w x = (x + 2 ^ (w - 1)) mod 2 ^ w - 2 ^ (w - 1)"

definition wrapUint :: "nat \<Rightarrow> int \<Rightarrow> int" where
  "wrapUint w x = x mod 2 ^ w"

subsection \<open>The Go standard library\<close>

text \<open>
  What the package calls in \<^verbatim>\<open>strconv\<close>, \<^verbatim>\<open>strings\<close> and \<^verbatim>\<open>fmt\<close>, and the conversions of
  the language between floats and integers. Where the library's result is plain
  arithmetic on bytes it is defined here, from the library's documentation. The rest is a
  parameter of the model, the record \<open>golib\<close>, and no theorem assumes anything about it
  that it does not state:
  \<^item> \<open>ParseFloat\<close>: \<^verbatim>\<open>strconv.ParseFloat(s, 64)\<close>, the \<^verbatim>\<open>float64\<close> as its 64 bits;
  \<^item> \<open>FormatFloat\<close>: \<^verbatim>\<open>fmt.Sprintf("%v", f)\<close> for a \<^verbatim>\<open>float64\<close>;
  \<^item> \<open>Float64ofInt\<close>: the conversion \<^verbatim>\<open>float64(i)\<close> of an \<^verbatim>\<open>int64\<close>;
  \<^item> \<open>Int64ofFloatOOR\<close>, \<open>Uint64ofFloatOOR\<close>: the conversions \<^verbatim>\<open>int64(f)\<close> and \<^verbatim>\<open>uint64(f)\<close>
    where the truncated value is not representable (the language leaves the result to
    the implementation);
  \<^item> \<open>Float32Round\<close>: \<^verbatim>\<open>float64(float32(f))\<close>;
  \<^item> \<open>QuoteU\<close>, \<open>ToLowerU\<close>: \<^verbatim>\<open>strconv.Quote\<close> and \<^verbatim>\<open>strings.ToLower\<close> on strings with a
    byte outside ASCII (they consult the Unicode tables);
  \<^item> \<open>SprintV\<close>: \<^verbatim>\<open>fmt.Sprintf("%v", v.Interface())\<close> for a struct, slice, array or map.
\<close>

record golib =
  ParseFloat :: "string \<Rightarrow> error + 64 word"
  FormatFloat :: "64 word \<Rightarrow> string"
  Float64ofInt :: "int \<Rightarrow> 64 word"
  Int64ofFloatOOR :: "64 word \<Rightarrow> int"
  Uint64ofFloatOOR :: "64 word \<Rightarrow> int"
  Float32Round :: "64 word \<Rightarrow> 64 word"
  QuoteU :: "string \<Rightarrow> string"
  ToLowerU :: "string \<Rightarrow> string"
  SprintV :: "gval \<Rightarrow> string"

text \<open>
  IEEE 754 binary64: sign (bit 63), biased exponent (bits 52..62), fraction (bits 0..51).
  \<open>f64_trunc\<close> is the value truncated towards zero, \<open>None\<close> for a NaN or an infinity.
\<close>

definition f64_sign :: "64 word \<Rightarrow> int" where
  "f64_sign f = uint f div 2 ^ 63"

definition f64_exp :: "64 word \<Rightarrow> int" where
  "f64_exp f = (uint f div 2 ^ 52) mod 2 ^ 11"

definition f64_frac :: "64 word \<Rightarrow> int" where
  "f64_frac f = uint f mod 2 ^ 52"

definition f64_trunc :: "64 word \<Rightarrow> int option" where
  "f64_trunc f =
     (if f64_exp f = 2047 then None
      else (let mag = (if f64_exp f < 1023 then 0
                       else if f64_exp f \<ge> 1075
                         then (2 ^ 52 + f64_frac f) * 2 ^ nat (f64_exp f - 1075)
                       else (2 ^ 52 + f64_frac f) div 2 ^ nat (1075 - f64_exp f))
            in Some (if f64_sign f = 1 then - mag else mag)))"

text \<open>The conversions \<^verbatim>\<open>int64(f)\<close> and \<^verbatim>\<open>uint64(f)\<close>.\<close>

definition Int64ofFloat :: "golib \<Rightarrow> 64 word \<Rightarrow> int" where
  "Int64ofFloat L f =
     (case f64_trunc f of
        Some n \<Rightarrow> if - (2 ^ 63) \<le> n \<and> n < 2 ^ 63 then n else Int64ofFloatOOR L f
      | None \<Rightarrow> Int64ofFloatOOR L f)"

definition Uint64ofFloat :: "golib \<Rightarrow> 64 word \<Rightarrow> int" where
  "Uint64ofFloat L f =
     (case f64_trunc f of
        Some n \<Rightarrow> if 0 \<le> n \<and> n < 2 ^ 64 then n else Uint64ofFloatOOR L f
      | None \<Rightarrow> Uint64ofFloatOOR L f)"

text \<open>The comparisons \<^verbatim>\<open>f == 0\<close> and \<^verbatim>\<open>a == b\<close> of \<^verbatim>\<open>float64\<close>.\<close>

definition f64_isZero :: "64 word \<Rightarrow> bool" where
  "f64_isZero f = (uint f mod 2 ^ 63 = 0)"

definition f64_isNaN :: "64 word \<Rightarrow> bool" where
  "f64_isNaN f = (f64_exp f = 2047 \<and> f64_frac f \<noteq> 0)"

definition f64_eq :: "64 word \<Rightarrow> 64 word \<Rightarrow> bool" where
  "f64_eq a b = (\<not> f64_isNaN a \<and> \<not> f64_isNaN b \<and> (a = b \<or> (f64_isZero a \<and> f64_isZero b)))"

text \<open>\<^verbatim>\<open>fmt.Sprintf("%d", n)\<close>.\<close>

function showNat :: "int \<Rightarrow> string" where
  "showNat n = (if n < 10 then [char_of (48 + n)]
                else showNat (n div 10) @ [char_of (48 + n mod 10)])"
  by pat_completeness auto
termination
  by (relation "measure nat") auto

declare showNat.simps [simp del]

definition showInt :: "int \<Rightarrow> string" where
  "showInt i = (if i < 0 then CHR ''-'' # showNat (- i) else showNat i)"

text \<open>
  \<^verbatim>\<open>strconv.ParseUint(s, 10, 64)\<close> and \<^verbatim>\<open>strconv.ParseInt(s, 10, 64)\<close>: decimal digits only
  (an underscore is accepted for base 0 only), a sign for \<^verbatim>\<open>ParseInt\<close> only.
\<close>

fun parseUintLoop :: "string \<Rightarrow> string \<Rightarrow> int \<Rightarrow> error + int" where
  "parseUintLoop s0 [] n = Inr n"
| "parseUintLoop s0 (c # cs) n =
     (if \<not> (of_char c \<ge> (48::int) \<and> of_char c \<le> (57::int)) then Inl (NumSyntax s0)
      else (let n' = n * 10 + (of_char c - 48)
            in if n' \<ge> 2 ^ 64 then Inl (NumRange s0) else parseUintLoop s0 cs n'))"

definition ParseUint :: "string \<Rightarrow> error + int" where
  "ParseUint s = (if s = [] then Inl (NumSyntax s) else parseUintLoop s s 0)"

definition ParseInt :: "string \<Rightarrow> error + int" where
  "ParseInt s0 =
     (if s0 = [] then Inl (NumSyntax s0)
      else (let neg = (hd s0 = CHR ''-'');
                s = (if hd s0 = CHR ''+'' \<or> hd s0 = CHR ''-'' then tl s0 else s0)
            in case ParseUint s of
                 Inl (NumRange _) \<Rightarrow> Inl (NumRange s0)
               | Inl _ \<Rightarrow> Inl (NumSyntax s0)
               | Inr un \<Rightarrow>
                   if \<not> neg \<and> un \<ge> 2 ^ 63 then Inl (NumRange s0)
                   else if neg \<and> un > 2 ^ 63 then Inl (NumRange s0)
                   else Inr (if neg then - un else un)))"

text \<open>\<^verbatim>\<open>strconv.ParseBool\<close>.\<close>

definition ParseBool :: "string \<Rightarrow> error + bool" where
  "ParseBool s =
     (if s \<in> set [''1'', ''t'', ''T'', ''TRUE'', ''true'', ''True''] then Inr True
      else if s \<in> set [''0'', ''f'', ''F'', ''FALSE'', ''false'', ''False''] then Inr False
      else Inl (NumSyntax s))"

text \<open>
  \<^verbatim>\<open>strings.ToLower\<close> and \<^verbatim>\<open>strconv.Quote\<close> on ASCII strings. \<^verbatim>\<open>Quote\<close> keeps a printable
  ASCII byte, writes \<^verbatim>\<open>\"\<close> and \<^verbatim>\<open>\\\<close> with a backslash, the control bytes 7..13 as
  \<^verbatim>\<open>\a \b \t \n \v \f \r\<close> and every other control byte as \<^verbatim>\<open>\x\<close> and two hexadecimal
  digits.
\<close>

definition isAscii :: "char \<Rightarrow> bool" where
  "isAscii c = (of_char c < (0x80 :: nat))"

definition lowerB :: "char \<Rightarrow> char" where
  "lowerB c = (if (65::nat) \<le> of_char c \<and> of_char c \<le> (90::nat)
                then char_of (of_char c + (32::nat)) else c)"

definition ToLower :: "golib \<Rightarrow> string \<Rightarrow> string" where
  "ToLower L s = (if list_all isAscii s then map lowerB s else ToLowerU L s)"

definition hexDigit :: "nat \<Rightarrow> char" where
  "hexDigit n = (if n < 10 then char_of (48 + n) else char_of (87 + n))"

definition quoteByte :: "char \<Rightarrow> string" where
  "quoteByte c =
     (if c = dq then [bsl, dq]
      else if c = bsl then [bsl, bsl]
      else if (0x20 :: nat) \<le> of_char c \<and> of_char c < (0x7F :: nat) then [c]
      else if c = CHR 0x07 then [bsl, CHR ''a'']
      else if c = CHR 0x08 then [bsl, CHR ''b'']
      else if c = CHR 0x0C then [bsl, CHR ''f'']
      else if c = LF then [bsl, CHR ''n'']
      else if c = CR then [bsl, CHR ''r'']
      else if c = TAB then [bsl, CHR ''t'']
      else if c = CHR 0x0B then [bsl, CHR ''v'']
      else [bsl, CHR ''x'', hexDigit (of_char c div 16), hexDigit (of_char c mod 16)])"

definition Quote :: "golib \<Rightarrow> string \<Rightarrow> string" where
  "Quote L s = (if list_all isAscii s then dq # concat (map quoteByte s) @ [dq] else QuoteU L s)"

subsection \<open>Field names\<close>

text \<open>
  \<^verbatim>\<open>fieldName := field.Tag.Get("god"); if fieldName == "" { fieldName =
  strings.ToLower(field.Name) }\<close>, and the loop that fills \<^verbatim>\<open>fieldMap\<close> (field name to field
  index; a later field with the same name overwrites an earlier one).
\<close>

definition fieldKey :: "golib \<Rightarrow> finfo \<Rightarrow> string" where
  "fieldKey L fi = (if ftag fi = [] then ToLower L (fname fi) else ftag fi)"

fun fieldMapFrom :: "golib \<Rightarrow> (finfo \<times> 'a) list \<Rightarrow> nat \<Rightarrow> (string \<rightharpoonup> nat) \<Rightarrow> (string \<rightharpoonup> nat)" where
  "fieldMapFrom L [] i m = m"
| "fieldMapFrom L ((fi, x) # fs) i m =
     fieldMapFrom L fs (i + 1) (if \<not> fexported fi then m else m(fieldKey L fi \<mapsto> i))"

definition fieldMap :: "golib \<Rightarrow> (finfo \<times> 'a) list \<Rightarrow> (string \<rightharpoonup> nat)" where
  "fieldMap L fs = fieldMapFrom L fs 0 Map.empty"

subsection \<open>The decoder: scalars\<close>

definition parseNumber :: "golib \<Rightarrow> parser \<Rightarrow> error + 64 word \<times> parser" where
  "parseNumber L p =
     (case readBareToken p of (token, p') \<Rightarrow>
        if token = [] then Inl ExpectedNumber
        else (case ParseFloat L token of Inl e \<Rightarrow> Inl e | Inr f \<Rightarrow> Inr (f, p')))"

definition parseBool :: "parser \<Rightarrow> error + bool \<times> parser" where
  "parseBool p =
     (case readBareToken p of (token, p') \<Rightarrow>
        if token = ''true'' then Inr (True, p')
        else if token = ''false'' then Inr (False, p')
        else Inl (InvalidBoolean token))"

subsection \<open>The decoder: tables\<close>

text \<open>
  The loops of \<^verbatim>\<open>decodeTable\<close> have no exit at the end of the input, so they need not
  terminate. Each takes fuel: \<open>None\<close> is a run that has not returned within it.
\<close>

definition setFieldFromString :: "golib \<Rightarrow> gval \<Rightarrow> string \<Rightarrow> error + gval" where
  "setFieldFromString L field s =
     (if s = [] then Inr field
      else (case field of
          VString _ \<Rightarrow> Inr (VString s)
        | VInt w _ \<Rightarrow> (case ParseInt s of Inl e \<Rightarrow> Inl e | Inr i \<Rightarrow> Inr (VInt w (wrapInt w i)))
        | VUint w _ \<Rightarrow> (case ParseUint s of Inl e \<Rightarrow> Inl e | Inr u \<Rightarrow> Inr (VUint w (wrapUint w u)))
        | VFloat w _ \<Rightarrow>
            (case ParseFloat L s of
               Inl e \<Rightarrow> Inl e
             | Inr f \<Rightarrow> Inr (VFloat w (if w = 32 then Float32Round L f else f)))
        | VBool _ \<Rightarrow> (case ParseBool s of Inl e \<Rightarrow> Inl e | Inr b \<Rightarrow> Inr (VBool b))
        | _ \<Rightarrow> Inl UnsupportedFieldType))"

text \<open>
  The header loop. The result is the headers and the parser; the flag is \<open>True\<close> when the
  loop left through \<^verbatim>\<open>return nil // Empty table\<close>.
\<close>

fun tableHeader :: "nat \<Rightarrow> parser \<Rightarrow> string list \<Rightarrow> (bool \<times> string list \<times> parser) option" where
  "tableHeader 0 p headers = None"
| "tableHeader (Suc n) p headers =
     (let p1 = skipSpaces p
      in if peek p1 = CHR '':'' then Some (False, headers, snd (next_p p1))
         else if peek p1 = CHR '')'' then Some (True, headers, snd (next_p p1))
         else (case readUntilAny '',:'' p1 of (tok, p2) \<Rightarrow>
                 let token = TrimSpace tok;
                     headers' = (if token \<noteq> [] then headers @ [token] else headers);
                     p3 = skipSpaces p2;
                     p4 = (if peek p3 = CHR '','' then snd (next_p p3) else p3)
                 in tableHeader n p4 headers'))"

text \<open>
  The cell loop of one row: the struct of the row and the parser after the row. \<open>readCell\<close>
  is the block \<^verbatim>\<open>// Parse cell value\<close> of the loop and \<open>setCell\<close> the block
  \<^verbatim>\<open>// Set field value\<close>.
\<close>

definition readCell :: "parser \<Rightarrow> error + string \<times> parser" where
  "readCell p1 =
     (if peek p1 = dq
      then (case parseStringValue p1 of
              (Inl e, p2) \<Rightarrow> Inl e
            | (Inr val, p2) \<Rightarrow> Inr (val, p2))
      else (case readUntilAny '',;)'' p1 of (s, p2) \<Rightarrow> Inr (TrimSpace s, p2)))"

definition setCell :: "golib \<Rightarrow> string list \<Rightarrow> (string \<rightharpoonup> nat) \<Rightarrow> (finfo \<times> gval) list \<Rightarrow> nat \<Rightarrow>
    string \<Rightarrow> error + (finfo \<times> gval) list" where
  "setCell L headers fm structVal cellIdx cellStr =
     (if cellIdx < length headers
      then (case fm (headers ! cellIdx) of
              Some fieldIdx \<Rightarrow>
                (case setFieldFromString L (snd (structVal ! fieldIdx)) cellStr of
                   Inl e \<Rightarrow> Inl e
                 | Inr v \<Rightarrow> Inr (structVal[fieldIdx := (fst (structVal ! fieldIdx), v)]))
            | None \<Rightarrow> Inr structVal)
      else Inr structVal)"

fun tableCells :: "nat \<Rightarrow> golib \<Rightarrow> string list \<Rightarrow> (string \<rightharpoonup> nat) \<Rightarrow> parser \<Rightarrow>
    (finfo \<times> gval) list \<Rightarrow> nat \<Rightarrow> (error + (finfo \<times> gval) list \<times> parser) option" where
  "tableCells 0 L headers fm p structVal cellIdx = None"
| "tableCells (Suc n) L headers fm p structVal cellIdx =
     (let p1 = skipSpaces p
      in if peek p1 = CHR '';'' then Some (Inr (structVal, snd (next_p p1)))
         else if peek p1 = CHR '')'' then Some (Inr (structVal, p1))
         else
           (case readCell p1 of
              Inl e \<Rightarrow> Some (Inl e)
            | Inr (cellStr, p2) \<Rightarrow>
                (case setCell L headers fm structVal cellIdx cellStr of
                   Inl e \<Rightarrow> Some (Inl e)
                 | Inr structVal' \<Rightarrow>
                     (let p3 = skipSpaces p2;
                          p4 = (if peek p3 = CHR '','' then snd (next_p p3) else p3)
                      in tableCells n L headers fm p4 structVal' (cellIdx + 1)))))"

text \<open>The row loop: \<open>sl\<close> is the slice built so far (\<^verbatim>\<open>slice\<close> in the source).\<close>

fun tableRows :: "nat \<Rightarrow> golib \<Rightarrow> string list \<Rightarrow> (string \<rightharpoonup> nat) \<Rightarrow> (finfo \<times> gtype) list \<Rightarrow>
    parser \<Rightarrow> gval list \<Rightarrow> (error + gval list \<times> parser) option" where
  "tableRows 0 L headers fm fts p sl = None"
| "tableRows (Suc n) L headers fm fts p sl =
     (let p1 = skipSpaces p
      in if peek p1 = CHR '')'' then Some (Inr (sl, snd (next_p p1)))
         else (case tableCells n L headers fm p1 (map (\<lambda>(fi, t). (fi, zeroVal t)) fts) 0 of
                 None \<Rightarrow> None
               | Some (Inl e) \<Rightarrow> Some (Inl e)
               | Some (Inr (structVal, p2)) \<Rightarrow>
                   tableRows n L headers fm fts p2 (sl @ [VStruct structVal])))"

text \<open>
  \<^verbatim>\<open>decodeTable(p, target)\<close> for a target that is a slice: \<open>elemType\<close> is the element type
  of the target and \<open>old\<close> its elements before the call. The result is the target after the
  call.
\<close>

definition decodeTable :: "nat \<Rightarrow> golib \<Rightarrow> parser \<Rightarrow> gtype \<Rightarrow> gval list \<Rightarrow>
    (error + gval \<times> parser) option" where
  "decodeTable n L p elemType old =
     (if peek p \<noteq> CHR ''('' then Some (Inl (ExpectedTableOpen (peek p)))
      else (let p1 = skipSpaces (snd (next_p p))
            in case elemType of
                 TStruct fts \<Rightarrow>
                   (case tableHeader n p1 [] of
                      None \<Rightarrow> None
                    | Some (True, headers, p2) \<Rightarrow> Some (Inr (VSlice elemType old, p2))
                    | Some (False, headers, p2) \<Rightarrow>
                        (case tableRows n L headers (fieldMap L fts) fts p2 [] of
                           None \<Rightarrow> None
                         | Some (Inl e) \<Rightarrow> Some (Inl e)
                         | Some (Inr (sl, p3)) \<Rightarrow> Some (Inr (VSlice elemType sl, p3))))
               | _ \<Rightarrow> Some (Inl TableNotStructSlice)))"

subsection \<open>The decoder: values\<close>

text \<open>
  \<^verbatim>\<open>decodeValue\<close>, \<^verbatim>\<open>decodeStruct\<close>, \<^verbatim>\<open>decodeMap\<close>, \<^verbatim>\<open>decodeSlice\<close> and \<^verbatim>\<open>parseGenericValue\<close>
  call each other, and the loops of \<^verbatim>\<open>decodeMap\<close> and \<^verbatim>\<open>decodeSlice\<close> can go round without
  reading a byte; all take fuel. \<open>decodeValue (Suc n)\<close> runs the body of \<^verbatim>\<open>decodeValue\<close>;
  what the body calls gets the fuel \<open>n\<close>, and where the source calls \<^verbatim>\<open>decodeValue\<close> again
  it calls \<open>dv\<close>, which is \<open>decodeValue n L\<close>. A loop uses one unit of fuel for every turn.
  \<open>None\<close> is a run that has not returned within the fuel.

  The argument after the parser is the target before the call (its fields, entries or
  elements); the result is the target after the call and the parser. On an error the
  result is the error alone.
\<close>

type_synonym dres = "(error + gval \<times> parser) option"

fun decodeStructLoop :: "(parser \<Rightarrow> gval \<Rightarrow> dres) \<Rightarrow> nat \<Rightarrow> (string \<rightharpoonup> nat) \<Rightarrow> parser \<Rightarrow>
    (finfo \<times> gval) list \<Rightarrow> dres" where
  "decodeStructLoop dv 0 fm p fvs = None"
| "decodeStructLoop dv (Suc n) fm p fvs =
     (if \<not> eof p \<and> peek p \<noteq> CHR ''}'' then
        (case readBareToken p of (key, p1) \<Rightarrow>
           let p2 = skipSpaces p1
           in if peek p2 \<noteq> CHR ''='' then Some (Inl (ExpectedEq key))
              else
                (let p3 = skipSpaces (snd (next_p p2))
                 in if peek p3 = CHR '';'' \<or> peek p3 = CHR ''}'' then
                      (let p4 = skipSpaces (if peek p3 = CHR '';'' then snd (next_p p3) else p3)
                       in case fm key of
                            Some fieldIdx \<Rightarrow>
                              decodeStructLoop dv n fm p4
                                (fvs[fieldIdx := (fst (fvs ! fieldIdx),
                                                  zeroVal (typeOf (snd (fvs ! fieldIdx))))])
                          | None \<Rightarrow> decodeStructLoop dv n fm p4 fvs)
                    else
                      (case (case fm key of
                               None \<Rightarrow>
                                 (case skipValue p3 of
                                    Inl e \<Rightarrow> Some (Inl e)
                                  | Inr p4 \<Rightarrow> Some (Inr (fvs, p4)))
                             | Some fieldIdx \<Rightarrow>
                                 (case dv p3 (snd (fvs ! fieldIdx)) of
                                    None \<Rightarrow> None
                                  | Some (Inl e) \<Rightarrow> Some (Inl e)
                                  | Some (Inr (v, p4)) \<Rightarrow>
                                      Some (Inr (fvs[fieldIdx := (fst (fvs ! fieldIdx), v)], p4))))
                       of None \<Rightarrow> None
                        | Some (Inl e) \<Rightarrow> Some (Inl e)
                        | Some (Inr (fvs', p4)) \<Rightarrow>
                            (let p5 = skipSpaces p4;
                                 p6 = (if peek p5 = CHR '';'' then snd (next_p p5) else p5)
                             in decodeStructLoop dv n fm (skipSpaces p6) fvs'))))
      else if peek p \<noteq> CHR ''}'' then Some (Inl ExpectedStructClose)
      else Some (Inr (VStruct fvs, snd (next_p p))))"

definition decodeStruct :: "(parser \<Rightarrow> gval \<Rightarrow> dres) \<Rightarrow> nat \<Rightarrow> golib \<Rightarrow> parser \<Rightarrow>
    (finfo \<times> gval) list \<Rightarrow> dres" where
  "decodeStruct dv n L p fvs =
     (if peek p \<noteq> CHR ''{'' then Some (Inl (ExpectedStructOpen (peek p)))
      else decodeStructLoop dv n (fieldMap L fvs) (skipSpaces (snd (next_p p))) fvs)"

fun decodeMapLoop :: "(parser \<Rightarrow> gval \<Rightarrow> dres) \<Rightarrow> nat \<Rightarrow> gtype \<Rightarrow> parser \<Rightarrow>
    (string \<times> gval) list \<Rightarrow> dres" where
  "decodeMapLoop dv 0 valType p es = None"
| "decodeMapLoop dv (Suc n) valType p es =
     (if \<not> eof p \<and> peek p \<noteq> CHR ''}'' then
        (case readBareToken p of (keyStr, p1) \<Rightarrow>
           let p2 = skipSpaces p1
           in if keyStr = [] then
                decodeMapLoop dv n valType
                  (if peek p2 = CHR '';'' then skipSpaces (snd (next_p p2)) else p2) es
              else if peek p2 \<noteq> CHR ''='' then Some (Inl (ExpectedMapEq keyStr (peek p2) (pos p2)))
              else
                (let p3 = skipSpaces (snd (next_p p2))
                 in if peek p3 = CHR '';'' \<or> peek p3 = CHR ''}'' then
                      (let p4 = skipSpaces (if peek p3 = CHR '';'' then snd (next_p p3) else p3)
                       in decodeMapLoop dv n valType p4 (AList.update keyStr (zeroVal valType) es))
                    else
                      (case dv p3 (zeroVal valType) of
                         None \<Rightarrow> None
                       | Some (Inl e) \<Rightarrow> Some (Inl e)
                       | Some (Inr (val, p4)) \<Rightarrow>
                           (let p5 = skipSpaces p4;
                                p6 = (if peek p5 = CHR '';'' then snd (next_p p5) else p5)
                            in decodeMapLoop dv n valType (skipSpaces p6)
                                 (AList.update keyStr val es)))))
      else if peek p \<noteq> CHR ''}'' then Some (Inl ExpectedMapClose)
      else Some (Inr (VMap valType es, snd (next_p p))))"

definition decodeMap :: "(parser \<Rightarrow> gval \<Rightarrow> dres) \<Rightarrow> nat \<Rightarrow> parser \<Rightarrow> gtype \<Rightarrow>
    (string \<times> gval) list \<Rightarrow> dres" where
  "decodeMap dv n p valType es =
     (if peek p \<noteq> CHR ''{'' then Some (Inl (ExpectedMapOpen (peek p)))
      else decodeMapLoop dv n valType (skipSpaces (snd (next_p p))) es)"

fun decodeSliceLoop :: "(parser \<Rightarrow> gval \<Rightarrow> dres) \<Rightarrow> nat \<Rightarrow> gtype \<Rightarrow> parser \<Rightarrow> gval list \<Rightarrow> dres" where
  "decodeSliceLoop dv 0 elemType p sl = None"
| "decodeSliceLoop dv (Suc n) elemType p sl =
     (if \<not> eof p \<and> peek p \<noteq> CHR '']'' then
        (case dv p (zeroVal elemType) of
           None \<Rightarrow> None
         | Some (Inl e) \<Rightarrow> Some (Inl e)
         | Some (Inr (elem, p1)) \<Rightarrow>
             (let p2 = skipSpaces p1;
                  p3 = (if peek p2 = CHR '','' then skipSpaces (snd (next_p p2)) else p2)
              in decodeSliceLoop dv n elemType p3 (sl @ [elem])))
      else if peek p \<noteq> CHR '']'' then Some (Inl ExpectedListClose)
      else Some (Inr (VSlice elemType sl, snd (next_p p))))"

definition decodeSlice :: "(parser \<Rightarrow> gval \<Rightarrow> dres) \<Rightarrow> nat \<Rightarrow> golib \<Rightarrow> parser \<Rightarrow> gtype \<Rightarrow>
    gval list \<Rightarrow> dres" where
  "decodeSlice dv n L p0 elemType old =
     (let p = skipSpaces p0
      in if peek p = CHR ''('' then decodeTable n L p elemType old
         else if peek p \<noteq> CHR ''['' then Some (Inl (ExpectedListOpen (peek p)))
         else decodeSliceLoop dv n elemType (skipSpaces (snd (next_p p))) [])"

text \<open>\<^verbatim>\<open>parseGenericValue\<close>: \<open>None\<close> in the result is the \<^verbatim>\<open>nil\<close> it returns for \<^verbatim>\<open>\0\<close>.\<close>

definition parseGenericValue :: "(parser \<Rightarrow> gval \<Rightarrow> dres) \<Rightarrow> nat \<Rightarrow> golib \<Rightarrow> parser \<Rightarrow>
    (error + gval option \<times> parser) option" where
  "parseGenericValue dv n L p0 =
     (let p = skipSpaces p0; c = peek p
      in if c = CHR ''{'' then
           (case decodeMap dv n p TIface [] of
              None \<Rightarrow> None
            | Some (Inl e) \<Rightarrow> Some (Inl e)
            | Some (Inr (m, p')) \<Rightarrow> Some (Inr (Some m, p')))
         else if c = CHR ''['' then
           (case decodeSlice dv n L p TIface [] of
              None \<Rightarrow> None
            | Some (Inl e) \<Rightarrow> Some (Inl e)
            | Some (Inr (s, p')) \<Rightarrow> Some (Inr (Some s, p')))
         else if c = CHR ''('' then Some (Inl GenericTable)
         else if c = dq then
           (case parseStringValue p of
              (Inl e, p') \<Rightarrow> Some (Inl e)
            | (Inr s, p') \<Rightarrow> Some (Inr (Some (VString s), p')))
         else if c = CHR ''t'' \<or> c = CHR ''f'' then
           (case parseBool p of
              Inl e \<Rightarrow> Some (Inl e)
            | Inr (b, p') \<Rightarrow> Some (Inr (Some (VBool b), p')))
         else if pos p + 1 < length (src p) \<and> src p ! pos p = bsl
                 \<and> src p ! (pos p + 1) = CHR ''0''
           then Some (Inr (None, p\<lparr>pos := pos p + 2\<rparr>))
         else (case parseNumber L p of
                 Inl e \<Rightarrow> Some (Inl e)
               | Inr (f, p') \<Rightarrow> Some (Inr (Some (VFloat 64 f), p'))))"

text \<open>The body of \<^verbatim>\<open>decodeValue\<close>: the switch on \<^verbatim>\<open>target.Kind()\<close>.\<close>

definition decodeValueBody :: "(parser \<Rightarrow> gval \<Rightarrow> dres) \<Rightarrow> nat \<Rightarrow> golib \<Rightarrow> parser \<Rightarrow> gval \<Rightarrow> dres" where
  "decodeValueBody dv n L p0 target =
     (let p = skipSpaces p0
      in case target of
           VPtr t ptr \<Rightarrow>
             (case dv p (case ptr of None \<Rightarrow> zeroVal t | Some x \<Rightarrow> x) of
                None \<Rightarrow> None
              | Some (Inl e) \<Rightarrow> Some (Inl e)
              | Some (Inr (v, p')) \<Rightarrow> Some (Inr (VPtr t (Some v), p')))
         | VStruct fvs \<Rightarrow> decodeStruct dv n L p fvs
         | VMap vt es \<Rightarrow> decodeMap dv n p vt es
         | VSlice et xs \<Rightarrow> decodeSlice dv n L p et xs
         | VString s \<Rightarrow>
             (case parseStringValue p of
                (Inl e, p') \<Rightarrow> Some (Inl e)
              | (Inr val, p') \<Rightarrow> Some (Inr (VString val, p')))
         | VInt w i \<Rightarrow>
             (case parseNumber L p of
                Inl e \<Rightarrow> Some (Inl e)
              | Inr (val, p') \<Rightarrow> Some (Inr (VInt w (wrapInt w (Int64ofFloat L val)), p')))
         | VUint w u \<Rightarrow>
             (case parseNumber L p of
                Inl e \<Rightarrow> Some (Inl e)
              | Inr (val, p') \<Rightarrow> Some (Inr (VUint w (wrapUint w (Uint64ofFloat L val)), p')))
         | VFloat w f \<Rightarrow>
             (case parseNumber L p of
                Inl e \<Rightarrow> Some (Inl e)
              | Inr (val, p') \<Rightarrow>
                  Some (Inr (VFloat w (if w = 32 then Float32Round L val else val), p')))
         | VBool b \<Rightarrow>
             (case parseBool p of
                Inl e \<Rightarrow> Some (Inl e)
              | Inr (val, p') \<Rightarrow> Some (Inr (VBool val, p')))
         | VIface x \<Rightarrow>
             (case parseGenericValue dv n L p of
                None \<Rightarrow> None
              | Some (Inl e) \<Rightarrow> Some (Inl e)
              | Some (Inr (val, p')) \<Rightarrow> Some (Inr (VIface val, p')))
         | VArray t xs \<Rightarrow> Some (Inl UnsupportedTarget)
         | VOther \<Rightarrow> Some (Inl UnsupportedTarget))"

primrec decodeValue :: "nat \<Rightarrow> golib \<Rightarrow> parser \<Rightarrow> gval \<Rightarrow> dres" where
  "decodeValue 0 L = (\<lambda>p target. None)"
| "decodeValue (Suc n) L = decodeValueBody (decodeValue n L) n L"

text \<open>
  \<^verbatim>\<open>Unmarshal(data, v)\<close>: \<open>v\<close> is the argument as \<^verbatim>\<open>reflect.ValueOf\<close> sees it. The result is
  what \<open>v\<close> points to after the call.
\<close>

definition Unmarshal :: "nat \<Rightarrow> golib \<Rightarrow> string \<Rightarrow> gval \<Rightarrow> (error + gval) option" where
  "Unmarshal n L data v =
     (case v of
        VPtr t (Some target) \<Rightarrow>
          map_option (map_sum id fst)
            (let p = skipSpaces \<lparr>src = data, pos = 0\<rparr>
             in if (case target of VSlice _ _ \<Rightarrow> True | _ \<Rightarrow> False) \<and> peek p = CHR ''{'' then
                  (let savedPos = pos p;
                       p1 = skipSpaces (snd (next_p p))
                   in if peek p1 = CHR ''('' then decodeValue n L p1 target
                      else decodeValue n L (p1\<lparr>pos := savedPos\<rparr>) target)
                else decodeValue n L p target)
      | _ \<Rightarrow> Some (Inl TargetNotPointer))"

subsection \<open>The encoder\<close>

text \<open>
  The encoder appends to a \<^verbatim>\<open>strings.Builder\<close>; each function here returns the text it
  appends, or the error. \<open>level\<close> is a Go \<^verbatim>\<open>int\<close>.
\<close>

definition indent :: "int \<Rightarrow> string" where
  "indent level = (if level \<le> 0 then [] else concat (replicate (nat level) ''  ''))"

fun isZeroValue :: "gval \<Rightarrow> bool" where
  "isZeroValue (VArray t xs) = (length xs = 0)"
| "isZeroValue (VMap t es) = (length es = 0)"
| "isZeroValue (VSlice t xs) = (length xs = 0)"
| "isZeroValue (VString s) = (length s = 0)"
| "isZeroValue (VBool b) = (\<not> b)"
| "isZeroValue (VInt w i) = (i = 0)"
| "isZeroValue (VUint w u) = (u = 0)"
| "isZeroValue (VFloat w f) = f64_isZero f"
| "isZeroValue (VIface x) = (x = None)"
| "isZeroValue (VPtr t x) = (x = None)"
| "isZeroValue (VStruct fvs) = False"
| "isZeroValue VOther = False"

definition encodeString :: "golib \<Rightarrow> string \<Rightarrow> bool \<Rightarrow> string" where
  "encodeString L s compact =
     (if LF \<in> set s then [dq, dq, dq] @ s @ [dq, dq, dq] else Quote L s)"

text \<open>The float case of \<^verbatim>\<open>encodeValue\<close> and of \<^verbatim>\<open>encodeTableCell\<close>.\<close>

definition encodeFloat :: "golib \<Rightarrow> 64 word \<Rightarrow> string" where
  "encodeFloat L f =
     (if f64_eq (Float64ofInt L (Int64ofFloat L f)) f then showInt (Int64ofFloat L f)
      else FormatFloat L f)"

fun encodeTableCell :: "golib \<Rightarrow> gval \<Rightarrow> error + string" where
  "encodeTableCell L (VString s) = Inr (if s = [] then [dq, dq] else Quote L s)"
| "encodeTableCell L (VInt w i) = Inr (showInt i)"
| "encodeTableCell L (VUint w u) = Inr (showNat u)"
| "encodeTableCell L (VFloat w f) = Inr (encodeFloat L f)"
| "encodeTableCell L (VBool b) = Inr (if b then ''true'' else ''false'')"
| "encodeTableCell L (VIface None) = Inr [bsl, CHR ''0'']"
| "encodeTableCell L (VIface (Some x)) = encodeTableCell L x"
| "encodeTableCell L (VPtr t None) = Inr [bsl, CHR ''0'']"
| "encodeTableCell L (VPtr t (Some x)) = encodeTableCell L x"
| "encodeTableCell L (VStruct fvs) =
     Inr (if isZeroValue (VStruct fvs) then [bsl, CHR ''0'']
          else Quote L (SprintV L (VStruct fvs)))"
| "encodeTableCell L (VSlice t xs) =
     Inr (if isZeroValue (VSlice t xs) then [bsl, CHR ''0'']
          else Quote L (SprintV L (VSlice t xs)))"
| "encodeTableCell L (VArray t xs) =
     Inr (if isZeroValue (VArray t xs) then [bsl, CHR ''0'']
          else Quote L (SprintV L (VArray t xs)))"
| "encodeTableCell L (VMap t es) =
     Inr (if isZeroValue (VMap t es) then [bsl, CHR ''0'']
          else Quote L (SprintV L (VMap t es)))"
| "encodeTableCell L VOther =
     Inr (if isZeroValue VOther then [bsl, CHR ''0''] else Quote L (SprintV L VOther))"

text \<open>
  \<^verbatim>\<open>encodeStructSliceAsTable\<close>: the header loop, the loop over the fields of one row (\<open>j\<close>
  is the field index), and the loop over the rows.
\<close>

fun tableHeaders :: "golib \<Rightarrow> (finfo \<times> gtype) list \<Rightarrow> string list" where
  "tableHeaders L [] = []"
| "tableHeaders L ((fi, t) # fts) =
     (if \<not> fexported fi then tableHeaders L fts else fieldKey L fi # tableHeaders L fts)"

fun joinHeaders :: "string list \<Rightarrow> nat \<Rightarrow> string" where
  "joinHeaders [] i = []"
| "joinHeaders (h # hs) i = (if i > 0 then '','' else []) @ h @ joinHeaders hs (i + 1)"

fun encodeRowCells :: "golib \<Rightarrow> (finfo \<times> gval) list \<Rightarrow> nat \<Rightarrow> error + string" where
  "encodeRowCells L [] j = Inr []"
| "encodeRowCells L ((fi, fieldVal) # fvs) j =
     (if \<not> fexported fi then encodeRowCells L fvs (j + 1)
      else (case encodeTableCell L fieldVal of
              Inl e \<Rightarrow> Inl e
            | Inr c \<Rightarrow>
                (case encodeRowCells L fvs (j + 1) of
                   Inl e \<Rightarrow> Inl e
                 | Inr r \<Rightarrow> Inr ((if j > 0 then '','' else []) @ c @ r))))"

fun encodeRows :: "golib \<Rightarrow> gval list \<Rightarrow> error + string" where
  "encodeRows L [] = Inr []"
| "encodeRows L (structVal # xs) =
     (case (case structVal of VStruct fvs \<Rightarrow> encodeRowCells L fvs 0 | _ \<Rightarrow> Inr []) of
        Inl e \<Rightarrow> Inl e
      | Inr r \<Rightarrow> (case encodeRows L xs of Inl e \<Rightarrow> Inl e | Inr rs \<Rightarrow> Inr (r @ '';'' @ rs)))"

definition encodeStructSliceAsTable :: "golib \<Rightarrow> gtype \<Rightarrow> gval list \<Rightarrow> bool \<Rightarrow> error + string" where
  "encodeStructSliceAsTable L elemType xs compact =
     (if length xs = 0 then Inr ''()''
      else (case encodeRows L xs of
              Inl e \<Rightarrow> Inl e
            | Inr rows \<Rightarrow>
                Inr (''('' @ joinHeaders (tableHeaders L (case elemType of TStruct fts \<Rightarrow> fts | _ \<Rightarrow> [])) 0
                     @ '':'' @ rows @ '')'')))"

text \<open>
  \<^verbatim>\<open>encodeValue\<close> first follows a pointer and then switches on the kind (\<open>encodeKind\<close>, where
  a pointer has no case); \<open>encodeFields\<close>, \<open>encodeEntries\<close> and \<open>encodeElems\<close> are the loops of
  \<^verbatim>\<open>encodeStruct\<close>, \<^verbatim>\<open>encodeMap\<close> and \<^verbatim>\<open>encodeSlice\<close> over what is left to write, with the
  variable \<^verbatim>\<open>first\<close> or the index \<open>i\<close>.
\<close>

function encodeValue :: "golib \<Rightarrow> gval \<Rightarrow> int \<Rightarrow> bool \<Rightarrow> error + string"
and encodeKind :: "golib \<Rightarrow> gval \<Rightarrow> int \<Rightarrow> bool \<Rightarrow> error + string"
and encodeFields :: "golib \<Rightarrow> (finfo \<times> gval) list \<Rightarrow> bool \<Rightarrow> int \<Rightarrow> bool \<Rightarrow> error + string"
and encodeEntries :: "golib \<Rightarrow> (string \<times> gval) list \<Rightarrow> bool \<Rightarrow> int \<Rightarrow> bool \<Rightarrow> error + string"
and encodeElems :: "golib \<Rightarrow> gval list \<Rightarrow> nat \<Rightarrow> int \<Rightarrow> bool \<Rightarrow> error + string"
where
  "encodeValue L v level compact =
     (case v of
        VPtr t None \<Rightarrow> Inr []
      | VPtr t (Some x) \<Rightarrow> encodeKind L x level compact
      | _ \<Rightarrow> encodeKind L v level compact)"
| "encodeKind L (VStruct fvs) level compact =
     (case encodeFields L fvs True level compact of
        Inl e \<Rightarrow> Inl e
      | Inr body \<Rightarrow>
          Inr (''{'' @ (if \<not> compact then [LF] else []) @ body
               @ (if \<not> compact then indent (level - 1) else []) @ ''}''))"
| "encodeKind L (VMap t es) level compact =
     (case encodeEntries L es True level compact of
        Inl e \<Rightarrow> Inl e
      | Inr body \<Rightarrow>
          Inr (''{'' @ (if \<not> compact then [LF] else []) @ body
               @ (if \<not> compact then indent (level - 1) else []) @ ''}''))"
| "encodeKind L (VSlice t xs) level compact =
     (if length xs = 0 then Inr ''[]''
      else if (case t of TStruct fts \<Rightarrow> True | _ \<Rightarrow> False)
        then encodeStructSliceAsTable L t xs compact
      else (case encodeElems L xs 0 level compact of
              Inl e \<Rightarrow> Inl e
            | Inr body \<Rightarrow> Inr (''['' @ body @ '']'')))"
| "encodeKind L (VArray t xs) level compact =
     (if length xs = 0 then Inr ''[]''
      else if (case t of TStruct fts \<Rightarrow> True | _ \<Rightarrow> False)
        then encodeStructSliceAsTable L t xs compact
      else (case encodeElems L xs 0 level compact of
              Inl e \<Rightarrow> Inl e
            | Inr body \<Rightarrow> Inr (''['' @ body @ '']'')))"
| "encodeKind L (VString s) level compact = Inr (encodeString L s compact)"
| "encodeKind L (VInt w i) level compact = Inr (showInt i)"
| "encodeKind L (VUint w u) level compact = Inr (showNat u)"
| "encodeKind L (VFloat w f) level compact = Inr (encodeFloat L f)"
| "encodeKind L (VBool b) level compact = Inr (if b then ''true'' else ''false'')"
| "encodeKind L (VIface None) level compact = Inr []"
| "encodeKind L (VIface (Some x)) level compact = encodeValue L x level compact"
| "encodeKind L (VPtr t x) level compact = Inl UnsupportedType"
| "encodeKind L VOther level compact = Inl UnsupportedType"
| "encodeFields L [] first level compact = Inr []"
| "encodeFields L ((fi, fieldValue) # fvs) first level compact =
     (if \<not> fexported fi then encodeFields L fvs first level compact
      else
        (let pre = (if \<not> first \<and> compact then '';'' else [])
                   @ (if \<not> compact then indent level else [])
                   @ fieldKey L fi @ ''=''
         in if isZeroValue fieldValue then
              (case encodeFields L fvs False level compact of
                 Inl e \<Rightarrow> Inl e
               | Inr r \<Rightarrow> Inr (pre @ (if \<not> compact then [CHR '';'', LF] else []) @ r))
            else
              (case encodeValue L fieldValue (level + 1) compact of
                 Inl e \<Rightarrow> Inl e
               | Inr s \<Rightarrow>
                   (case encodeFields L fvs False level compact of
                      Inl e \<Rightarrow> Inl e
                    | Inr r \<Rightarrow> Inr (pre @ s @ (if \<not> compact then [CHR '';'', LF] else []) @ r)))))"
| "encodeEntries L [] first level compact = Inr []"
| "encodeEntries L ((key, val) # es) first level compact =
     (let pre = (if \<not> first \<and> compact then '';'' else [])
                @ (if \<not> compact then indent level else [])
                @ key @ ''=''
      in if isZeroValue val \<or> val = VIface None then
           (case encodeEntries L es False level compact of
              Inl e \<Rightarrow> Inl e
            | Inr r \<Rightarrow> Inr (pre @ (if \<not> compact then [CHR '';'', LF] else []) @ r))
         else
           (case encodeValue L val (level + 1) compact of
              Inl e \<Rightarrow> Inl e
            | Inr s \<Rightarrow>
                (case encodeEntries L es False level compact of
                   Inl e \<Rightarrow> Inl e
                 | Inr r \<Rightarrow> Inr (pre @ s @ (if \<not> compact then [CHR '';'', LF] else []) @ r))))"
| "encodeElems L [] i level compact = Inr []"
| "encodeElems L (x # xs) i level compact =
     (case encodeValue L x level compact of
        Inl e \<Rightarrow> Inl e
      | Inr s \<Rightarrow>
          (case encodeElems L xs (i + 1) level compact of
             Inl e \<Rightarrow> Inl e
           | Inr r \<Rightarrow> Inr ((if i > 0 then '','' else []) @ s @ r)))"
  by pat_completeness auto
termination
  by (relation "measure (\<lambda>x. case x of
         Inl (Inl (L, v, level, compact)) \<Rightarrow> 2 * size v + 1
       | Inl (Inr (L, v, level, compact)) \<Rightarrow> 2 * size v
       | Inr (Inl (L, fvs, first, level, compact)) \<Rightarrow>
           2 * size_list (size_prod (\<lambda>x. 0) size) fvs + 1
       | Inr (Inr (Inl (L, es, first, level, compact))) \<Rightarrow>
           2 * size_list (size_prod (\<lambda>x. 0) size) es + 1
       | Inr (Inr (Inr (L, xs, i, level, compact))) \<Rightarrow> 2 * size_list size xs + 1)")
     auto

text \<open>\<^verbatim>\<open>marshalWithCompact\<close>, \<^verbatim>\<open>Marshal\<close> and \<^verbatim>\<open>MarshalBeautify\<close>.\<close>

definition marshalWithCompact :: "golib \<Rightarrow> gval \<Rightarrow> bool \<Rightarrow> error + string" where
  "marshalWithCompact L v compact =
     (let rv = (case v of VPtr t (Some x) \<Rightarrow> x | _ \<Rightarrow> v)
      in if (case rv of VMap t es \<Rightarrow> True | VStruct fvs \<Rightarrow> True | _ \<Rightarrow> False)
         then encodeValue L rv 0 compact
         else (case encodeValue L rv 1 compact of
                 Inl e \<Rightarrow> Inl e
               | Inr s \<Rightarrow>
                   Inr (''{'' @ (if \<not> compact then LF # ''  '' else []) @ s
                        @ (if \<not> compact then [LF] else []) @ ''}'')))"

definition Marshal :: "golib \<Rightarrow> gval \<Rightarrow> error + string" where
  "Marshal L v = marshalWithCompact L v True"

definition MarshalBeautify :: "golib \<Rightarrow> gval \<Rightarrow> error + string" where
  "MarshalBeautify L v = marshalWithCompact L v False"

section \<open>Properties of the scanner\<close>

text \<open>
  \<open>rest p\<close> is the input that is left at the cursor and \<open>adv n p\<close> moves the cursor by \<open>n\<close>
  bytes. Each scanner function is characterised by what it does to the rest of the input.
\<close>

definition rest :: "parser \<Rightarrow> string" where "rest p = drop (pos p) (src p)"
definition adv :: "nat \<Rightarrow> parser \<Rightarrow> parser" where "adv n p = p\<lparr>pos := pos p + n\<rparr>"

lemma adv_simps [simp]:
  "src (adv n p) = src p" "pos (adv n p) = pos p + n" "adv 0 p = p" "adv m (adv n p) = adv (n + m) p"
  by (simp_all add: adv_def)

lemma rest_adv [simp]: "rest (adv n p) = drop n (rest p)"
  by (simp add: rest_def adv_def add.commute)

lemma eof_rest: "eof p \<longleftrightarrow> rest p = []"
  by (simp add: eof_def rest_def)

lemma peek_rest: "peek p = (case rest p of [] \<Rightarrow> NUL | c # r \<Rightarrow> c)"
  by (auto simp: peek_def eof_def rest_def hd_drop_conv_nth split: list.splits
      dest!: arg_cong[where f = hd])

lemma next_p_rest: "next_p p = (case rest p of [] \<Rightarrow> (NUL, p) | c # r \<Rightarrow> (c, adv 1 p))"
  by (auto simp: next_p_def eof_def rest_def adv_def hd_drop_conv_nth split: list.splits
      dest!: arg_cong[where f = hd])

lemma peek_Nil [simp]: "rest p = [] \<Longrightarrow> peek p = NUL"
  and peek_Cons [simp]: "rest p = c # r \<Longrightarrow> peek p = c"
  and next_p_Nil [simp]: "rest p = [] \<Longrightarrow> next_p p = (NUL, p)"
  and next_p_Cons [simp]: "rest p = c # r \<Longrightarrow> next_p p = (c, adv 1 p)"
  and eof_Nil [simp]: "rest p = [] \<Longrightarrow> eof p"
  and eof_Cons [simp]: "rest p = c # r \<Longrightarrow> \<not> eof p"
  by (simp_all add: peek_rest next_p_rest eof_rest)

lemma skipSpaces_rest: "skipSpaces p = adv (length (takeWhile isSpaceB (rest p))) p"
proof (induction p rule: skipSpaces.induct)
  case (1 p)
  show ?case
  proof (cases "rest p")
    case Nil
    then show ?thesis by (subst skipSpaces.simps) simp
  next
    case (Cons c r)
    show ?thesis
    proof (cases "isSpaceB c")
      case True
      with Cons have "skipSpaces p = skipSpaces (adv 1 p)"
        by (subst skipSpaces.simps) (simp add: adv_def)
      also have "\<dots> = adv (length (takeWhile isSpaceB (rest (adv 1 p)))) (adv 1 p)"
        using 1 Cons True by (simp add: adv_def)
      finally show ?thesis using Cons True by simp
    next
      case False
      with Cons show ?thesis by (subst skipSpaces.simps) simp
    qed
  qed
qed

lemma readBareLoop_rest:
  "readBareLoop p buf =
     (buf @ takeWhile (\<lambda>c. \<not> isDelim c) (rest p),
      adv (length (takeWhile (\<lambda>c. \<not> isDelim c) (rest p))) p)"
proof (induction p buf rule: readBareLoop.induct)
  case (1 p buf)
  show ?case
  proof (cases "rest p")
    case Nil
    then show ?thesis by (subst readBareLoop.simps) simp
  next
    case (Cons c r)
    show ?thesis
    proof (cases "isDelim c")
      case True
      with Cons show ?thesis by (subst readBareLoop.simps) simp
    next
      case False
      with Cons have "readBareLoop p buf = readBareLoop (adv 1 p) (buf @ [c])"
        by (subst readBareLoop.simps) simp
      also have "\<dots> = ((buf @ [c]) @ takeWhile (\<lambda>c. \<not> isDelim c) (rest (adv 1 p)),
          adv (length (takeWhile (\<lambda>c. \<not> isDelim c) (rest (adv 1 p)))) (adv 1 p))"
        using 1(1)[of c "adv 1 p"] Cons False by simp
      finally show ?thesis using Cons False by simp
    qed
  qed
qed

lemma readUntilLoop_rest:
  "readUntilLoop seps p = adv (length (takeWhile (\<lambda>c. \<not> ContainsRune seps c) (rest p))) p"
proof (induction seps p rule: readUntilLoop.induct)
  case (1 seps p)
  show ?case
  proof (cases "rest p")
    case Nil
    then show ?thesis by (subst readUntilLoop.simps) simp
  next
    case (Cons c r)
    show ?thesis
    proof (cases "ContainsRune seps c")
      case True
      with Cons show ?thesis by (subst readUntilLoop.simps) simp
    next
      case False
      with Cons have "readUntilLoop seps p = readUntilLoop seps (adv 1 p)"
        by (subst readUntilLoop.simps) (simp add: adv_def)
      also have "\<dots> = adv (length (takeWhile (\<lambda>c. \<not> ContainsRune seps c) (rest (adv 1 p)))) (adv 1 p)"
        using 1 Cons False by (simp add: adv_def)
      finally show ?thesis using Cons False by simp
    qed
  qed
qed

lemma readUntilAny_rest:
  "readUntilAny seps p =
     (takeWhile (\<lambda>c. \<not> ContainsRune seps c) (rest p),
      adv (length (takeWhile (\<lambda>c. \<not> ContainsRune seps c) (rest p))) p)"
proof -
  have "take (length (takeWhile P (drop n xs))) (drop n xs) = takeWhile P (drop n xs)" for P n and xs :: string
    by (metis append_eq_conv_conj takeWhile_dropWhile_id)
  then show ?thesis
    by (simp add: readUntilAny_def readUntilLoop_rest Let_def rest_def)
qed

lemma wrap64_id: "- 9223372036854775808 \<le> x \<Longrightarrow> x < 9223372036854775808 \<Longrightarrow> wrap64 x = x"
  by (simp add: wrap64_def mod_pos_pos_trivial)

lemma peekAhead_rest:
  assumes "pos p \<le> length (src p)" "0 \<le> n" "int (length (src p)) + n < 9223372036854775808"
  shows "peekAhead p n = Inr (take (nat n) (rest p))"
proof -
  have e: "wrap64 (int (pos p) + n) = int (pos p) + n"
    using assms by (intro wrap64_id) auto
  have "nat (int (pos p) + n) - pos p = nat n"
    using assms(2) by (simp add: nat_add_distrib)
  moreover have "take (nat n) (rest p) = rest p" if "int (pos p) + n > int (length (src p))"
    using that assms(1,2) by (intro take_all) (simp add: rest_def)
  ultimately show ?thesis
    using assms by (auto simp: peekAhead_def e Let_def rest_def)
qed


text \<open>
  \<open>fitsInt p\<close>: the input is so short that \<^verbatim>\<open>p.pos+3\<close> does not wrap around at any position
  inside it.
\<close>

definition fitsInt :: "parser \<Rightarrow> bool" where
  "fitsInt p = (int (length (src p)) + 3 < 9223372036854775808)"

lemma fitsInt_adv [simp]: "fitsInt (adv n p) = fitsInt p"
  by (simp add: fitsInt_def)

lemma fitsInt_src: "src q = src p \<Longrightarrow> fitsInt q = fitsInt p"
  by (simp add: fitsInt_def)


lemma readBareToken_rest:
  "readBareToken p =
     (let r = dropWhile isSpaceB (rest p); t = takeWhile (\<lambda>c. \<not> isDelim c) r
      in (TrimSpace t, adv (length (takeWhile isSpaceB (rest p)) + length t) p))"
  by (simp add: readBareToken_def skipSpaces_rest readBareLoop_rest Let_def dropWhile_eq_drop)


subsection \<open>Strings\<close>

lemma TrimSpace_Nil [simp]: "TrimSpace [] = []"
  by (simp add: TrimSpace_def trimLeftSpace.simps trimRightSpace.simps spaceRunes_def isPrefixOf_def isSuffixOf_def)

definition plainChar :: "char \<Rightarrow> bool" where
  "plainChar c = (c \<noteq> dq \<and> c \<noteq> bsl)"

lemma parseStringLoop_plain:
  "list_all plainChar s \<Longrightarrow> rest p = s @ r \<Longrightarrow>
   parseStringLoop p buf = parseStringLoop (adv (length s) p) (buf @ s)"
proof (induction s arbitrary: p buf)
  case Nil
  then show ?case by simp
next
  case (Cons c s)
  from Cons.prems have pc: "plainChar c" and s: "list_all plainChar s"
    and r: "rest p = c # (s @ r)" by simp_all
  from pc have c: "c \<noteq> dq" "c \<noteq> bsl" by (simp_all add: plainChar_def)
  have "parseStringLoop p buf = parseStringLoop (adv 1 p) (buf @ [c])"
    using r c by (subst parseStringLoop.simps) simp
  also have "\<dots> = parseStringLoop (adv (length s) (adv 1 p)) ((buf @ [c]) @ s)"
    using r by (intro Cons.IH[OF s]) simp
  finally show ?case by simp
qed

lemma parseStringLoop_close:
  "rest p = dq # r \<Longrightarrow> parseStringLoop p buf = (Inr buf, adv 1 p)"
  by (subst parseStringLoop.simps) simp

lemma parseStringLoop_escape:
  "rest p = bsl # nc # r \<Longrightarrow>
   parseStringLoop p buf =
     parseStringLoop (adv 2 p)
       (buf @ [if nc = CHR ''n'' then LF else if nc = CHR ''r'' then CR
               else if nc = CHR ''t'' then TAB else nc])"
  by (subst parseStringLoop.simps) (auto simp: numeral_2_eq_2)

lemma parseString_open:
  "rest p = dq # r \<Longrightarrow> parseString p = parseStringLoop (adv 1 p) []"
  by (simp add: parseString_def)

text \<open>
  Claim C10. In a plain double-quoted string, a backslash followed by a byte \<open>nc\<close> other than
  \<open>n\<close>, \<open>r\<close>, \<open>t\<close>, the double quote and the backslash decodes to \<open>nc\<close> alone: the string
  \<open>"s1\nc s2"\<close>, with \<open>s1\<close> and \<open>s2\<close> free of quotes and backslashes, is read without an
  error as \<open>s1 nc s2\<close>, and the cursor ends behind the closing quote.
\<close>

theorem parseString_unknown_escape:
  assumes nc: "nc \<noteq> CHR ''n''" "nc \<noteq> CHR ''r''" "nc \<noteq> CHR ''t''" "nc \<noteq> dq" "nc \<noteq> bsl"
    and s1: "list_all plainChar s1" and s2: "list_all plainChar s2"
    and r: "rest p = [dq] @ s1 @ [bsl, nc] @ s2 @ [dq] @ r"
  shows "parseString p = (Inr (s1 @ [nc] @ s2), adv (length s1 + length s2 + 4) p)"
proof -
  have "parseString p = parseStringLoop (adv 1 p) []"
    using r by (simp add: parseString_open)
  also have "\<dots> = parseStringLoop (adv (length s1) (adv 1 p)) ([] @ s1)"
    using r by (intro parseStringLoop_plain[OF s1]) simp
  also have "\<dots> = parseStringLoop (adv 2 (adv (length s1) (adv 1 p))) (s1 @ [nc])"
    using r nc by (subst parseStringLoop_escape[where nc = nc and r = "s2 @ [dq] @ r"]) simp_all
  also have "\<dots> = parseStringLoop (adv (length s2) (adv 2 (adv (length s1) (adv 1 p)))) ((s1 @ [nc]) @ s2)"
    using r by (intro parseStringLoop_plain[OF s2, where r = "[dq] @ r"]) simp
  also have "\<dots> = (Inr ((s1 @ [nc]) @ s2), adv 1 (adv (length s2) (adv 2 (adv (length s1) (adv 1 p)))))"
    using r by (intro parseStringLoop_close[where r = r]) simp
  finally show ?thesis by (simp add: add.commute add.left_commute)
qed

text \<open>The two bytes \<open>\z\<close> decode to the single byte \<open>z\<close>.\<close>

theorem parseString_unknown_escape_witness:
  "parseString \<lparr>src = [dq, bsl, CHR ''z'', dq], pos = 0\<rparr>
     = (Inr ''z'', \<lparr>src = [dq, bsl, CHR ''z'', dq], pos = 4\<rparr>)"
  using parseString_unknown_escape[of "CHR ''z''" "[]" "[]" "\<lparr>src = [dq, bsl, CHR ''z'', dq], pos = 0\<rparr>" "[]"]
  by (simp add: rest_def adv_def)

subsection \<open>Sequences of scanner operations\<close>

text \<open>
  The operations of the scanner as data, so that a theorem can speak of every sequence of
  them: \<open>scan_step\<close> runs one operation and returns what it returns and the parser after
  it, \<open>scan_run\<close> runs a sequence and returns the parser after each operation. A panic
  ends the run.
\<close>

datatype scan_op = OpPeek | OpNext | OpSkipSpaces | OpReadBareToken | OpReadUntilAny string | OpPeekAhead int
datatype scan_out = OutByte char | OutString string | OutNothing

fun scan_step :: "parser \<Rightarrow> scan_op \<Rightarrow> error + scan_out \<times> parser" where
  "scan_step p OpPeek = Inr (OutByte (peek p), p)"
| "scan_step p OpNext = (case next_p p of (c, p') \<Rightarrow> Inr (OutByte c, p'))"
| "scan_step p OpSkipSpaces = Inr (OutNothing, skipSpaces p)"
| "scan_step p OpReadBareToken = (case readBareToken p of (t, p') \<Rightarrow> Inr (OutString t, p'))"
| "scan_step p (OpReadUntilAny seps) = (case readUntilAny seps p of (t, p') \<Rightarrow> Inr (OutString t, p'))"
| "scan_step p (OpPeekAhead n) = (case peekAhead p n of Inl e \<Rightarrow> Inl e | Inr s \<Rightarrow> Inr (OutString s, p))"

fun scan_run :: "parser \<Rightarrow> scan_op list \<Rightarrow> error + parser list" where
  "scan_run p [] = Inr []"
| "scan_run p (x # ops) =
     (case scan_step p x of
        Inl e \<Rightarrow> Inl e
      | Inr (out, p') \<Rightarrow> (case scan_run p' ops of Inl e \<Rightarrow> Inl e | Inr ps \<Rightarrow> Inr (p' # ps)))"

text \<open>
  \<open>opOk s x\<close>: the operation \<open>x\<close> is \<^verbatim>\<open>peekAhead(n)\<close> only with a count \<open>n\<close> that is not negative
  and whose sum with the length of the input \<open>s\<close> is a Go \<^verbatim>\<open>int\<close>.
\<close>

fun opOk :: "string \<Rightarrow> scan_op \<Rightarrow> bool" where
  "opOk s (OpPeekAhead n) = (0 \<le> n \<and> int (length s) + n < 9223372036854775808)"
| "opOk s OpPeek = True"
| "opOk s OpNext = True"
| "opOk s OpSkipSpaces = True"
| "opOk s OpReadBareToken = True"
| "opOk s (OpReadUntilAny seps) = True"

lemma length_takeWhile_rest: "pos p \<le> length (src p) \<Longrightarrow> pos p + length (takeWhile P (rest p)) \<le> length (src p)"
proof -
  assume a: "pos p \<le> length (src p)"
  have "length (takeWhile P (rest p)) \<le> length (rest p)" by (rule length_takeWhile_le)
  with a show ?thesis by (simp add: rest_def)
qed

lemma scan_step_moves:
  assumes "scan_step p x = Inr (out, q)"
  shows "\<exists>k. q = adv k p \<and> k \<le> length (rest p)"
proof (cases x)
  case OpPeek with assms show ?thesis by (auto intro: exI[of _ 0])
next
  case OpNext
  with assms show ?thesis
    by (cases "rest p") (auto intro: exI[of _ 0] exI[of _ 1])
next
  case OpSkipSpaces
  with assms show ?thesis by (auto simp: skipSpaces_rest length_takeWhile_le)
next
  case OpReadBareToken
  have "length (takeWhile isSpaceB (rest p)) + length (takeWhile (\<lambda>c. \<not> isDelim c) (dropWhile isSpaceB (rest p)))
      \<le> length (takeWhile isSpaceB (rest p)) + length (dropWhile isSpaceB (rest p))"
    by (simp add: length_takeWhile_le)
  also have "\<dots> = length (rest p)"
    by (metis length_append takeWhile_dropWhile_id)
  finally show ?thesis using OpReadBareToken assms
    by (auto simp: readBareToken_rest Let_def)
next
  case (OpReadUntilAny seps)
  with assms show ?thesis by (auto simp: readUntilAny_rest length_takeWhile_le)
next
  case (OpPeekAhead n)
  with assms show ?thesis by (auto split: sum.splits intro: exI[of _ 0])
qed

lemma scan_step_total:
  assumes "pos p \<le> length (src p)" "opOk (src p) x"
  shows "\<exists>out q. scan_step p x = Inr (out, q)"
proof (cases x)
  case (OpPeekAhead n)
  with assms show ?thesis by (simp add: peekAhead_rest)
qed (auto split: prod.splits)

lemma scan_run_inv:
  "pos p \<le> length (src p) \<Longrightarrow> list_all (opOk (src p)) ops \<Longrightarrow>
   \<exists>ps. scan_run p ops = Inr ps
     \<and> length ps = length ops
     \<and> sorted (map pos (p # ps))
     \<and> list_all (\<lambda>q. pos q \<le> length (src p) \<and> src q = src p) ps"
proof (induction ops arbitrary: p)
  case Nil
  then show ?case by simp
next
  case (Cons x ops)
  from Cons.prems obtain out q where st: "scan_step p x = Inr (out, q)"
    using scan_step_total[of p x] by auto
  from scan_step_moves[OF st] obtain k where k: "q = adv k p" "k \<le> length (rest p)" by blast
  with Cons.prems have q: "pos p \<le> pos q" "pos q \<le> length (src p)" "src q = src p"
    by (simp_all add: rest_def)
  then have "pos q \<le> length (src q)" "list_all (opOk (src q)) ops"
    using Cons.prems by simp_all
  from Cons.IH[OF this] obtain ps where ps: "scan_run q ops = Inr ps" "length ps = length ops"
      "sorted (map pos (q # ps))" "list_all (\<lambda>r. pos r \<le> length (src q) \<and> src r = src q) ps"
    by blast
  have "scan_run p (x # ops) = Inr (q # ps)" using st ps(1) by simp
  moreover have "sorted (map pos (p # q # ps))" using ps(3) q(1) by auto
  moreover have "list_all (\<lambda>r. pos r \<le> length (src p) \<and> src r = src p) (q # ps)"
    using ps(4) q by (auto simp: list_all_iff)
  ultimately show ?case using ps(2) by simp
qed

lemma scan_step_eof:
  assumes "eof p" "pos p \<le> length (src p)"
  shows "scan_step p OpPeek = Inr (OutByte NUL, p)" "scan_step p OpNext = Inr (OutByte NUL, p)"
    "scan_step p OpSkipSpaces = Inr (OutNothing, p)" "scan_step p OpReadBareToken = Inr (OutString [], p)"
    "scan_step p (OpReadUntilAny seps) = Inr (OutString [], p)"
  using assms
  by (simp_all add: eof_rest skipSpaces_rest readBareToken_rest readUntilAny_rest)

text \<open>
  \<^verbatim>\<open>peekAhead\<close> with a negative count, or with a count so large that \<^verbatim>\<open>p.pos+n\<close> wraps
  around, panics, also in the middle of a run: on the input \<^verbatim>\<open>abc\<close> at position 1,
  \<^verbatim>\<open>peekAhead(-1)\<close> is \<^verbatim>\<open>p.src[1:0]\<close> and \<^verbatim>\<open>peekAhead(9223372036854775807)\<close> is
  \<^verbatim>\<open>p.src[1:-9223372036854775808]\<close>.
\<close>

theorem peekAhead_panics_outside_counts:
  "peekAhead \<lparr>src = ''abc'', pos = 1\<rparr> (- 1) = Inl RuntimePanic
   \<and> peekAhead \<lparr>src = ''abc'', pos = 1\<rparr> 9223372036854775807 = Inl RuntimePanic
   \<and> scan_run \<lparr>src = ''abc'', pos = 1\<rparr> [OpPeek, OpPeekAhead (- 1), OpNext] = Inl RuntimePanic"
  by (simp add: peekAhead_def wrap64_def)

text \<open>
  Claim C8, for the counts that \<^verbatim>\<open>peekAhead\<close> accepts. From a parser whose cursor is inside
  its input (as \<^verbatim>\<open>Unmarshal\<close> creates it, at position 0), every sequence of scanner
  operations in which each \<^verbatim>\<open>peekAhead(n)\<close> has \<open>0 \<le> n\<close> and \<open>length input + n < 2 ^ 63\<close>
  returns (one parser per operation), the cursor never moves back, never passes the end of
  the input, and the input is never changed. At the end of the input \<^verbatim>\<open>peek\<close> and \<^verbatim>\<open>next\<close>
  return the byte 0, the reading operations return the empty string, and nothing moves;
  \<^verbatim>\<open>peekAhead(n)\<close> with such a count returns the at most \<open>n\<close> bytes that are left.
\<close>

theorem scanner_cursor_monotone_bounded_total:
  assumes "pos p \<le> length (src p)" and "list_all (opOk (src p)) ops"
  shows "(\<exists>ps. scan_run p ops = Inr ps
        \<and> length ps = length ops
        \<and> sorted (map pos (p # ps))
        \<and> list_all (\<lambda>q. pos q \<le> length (src p) \<and> src q = src p) ps)
    \<and> (eof p \<longrightarrow>
          scan_step p OpPeek = Inr (OutByte NUL, p) \<and> scan_step p OpNext = Inr (OutByte NUL, p)
        \<and> scan_step p OpSkipSpaces = Inr (OutNothing, p)
        \<and> scan_step p OpReadBareToken = Inr (OutString [], p)
        \<and> scan_step p (OpReadUntilAny seps) = Inr (OutString [], p))
    \<and> (0 \<le> n \<and> int (length (src p)) + n < 9223372036854775808 \<longrightarrow>
          scan_step p (OpPeekAhead n) = Inr (OutString (take (nat n) (drop (pos p) (src p))), p))"
proof -
  have run: "\<exists>ps. scan_run p ops = Inr ps
        \<and> length ps = length ops
        \<and> sorted (map pos (p # ps))
        \<and> list_all (\<lambda>q. pos q \<le> length (src p) \<and> src q = src p) ps"
    using assms by (rule scan_run_inv)
  have ahead: "scan_step p (OpPeekAhead n) = Inr (OutString (take (nat n) (drop (pos p) (src p))), p)"
    if "0 \<le> n \<and> int (length (src p)) + n < 9223372036854775808"
    using that assms(1) by (simp add: peekAhead_rest rest_def)
  from run ahead scan_step_eof[OF _ assms(1)] show ?thesis by blast
qed

theorem scanner_cursor_monotone_bounded_total_witness:
  "pos \<lparr>src = ''a b'', pos = 0\<rparr> \<le> length (src \<lparr>src = ''a b'', pos = 0\<rparr>)
   \<and> list_all (opOk (src \<lparr>src = ''a b'', pos = 0\<rparr>))
        [OpReadBareToken, OpPeekAhead 3, OpSkipSpaces, OpNext, OpNext, OpPeek]
   \<and> scan_run \<lparr>src = ''a b'', pos = 0\<rparr> [OpReadBareToken, OpPeekAhead 3, OpSkipSpaces, OpNext, OpNext, OpPeek]
       = Inr [\<lparr>src = ''a b'', pos = 1\<rparr>, \<lparr>src = ''a b'', pos = 1\<rparr>, \<lparr>src = ''a b'', pos = 2\<rparr>,
          \<lparr>src = ''a b'', pos = 3\<rparr>, \<lparr>src = ''a b'', pos = 3\<rparr>, \<lparr>src = ''a b'', pos = 3\<rparr>]
   \<and> sorted (map pos [\<lparr>src = ''a b'', pos = 0\<rparr>,
          \<lparr>src = ''a b'', pos = 1\<rparr>, \<lparr>src = ''a b'', pos = 1\<rparr>, \<lparr>src = ''a b'', pos = 2\<rparr>,
          \<lparr>src = ''a b'', pos = 3\<rparr>, \<lparr>src = ''a b'', pos = 3\<rparr>, \<lparr>src = ''a b'', pos = 3\<rparr>])
   \<and> eof \<lparr>src = ''a b'', pos = 3\<rparr>
   \<and> scan_step \<lparr>src = ''a b'', pos = 3\<rparr> OpNext = Inr (OutByte NUL, \<lparr>src = ''a b'', pos = 3\<rparr>)
   \<and> scan_step \<lparr>src = ''a b'', pos = 1\<rparr> (OpPeekAhead 5) = Inr (OutString '' b'', \<lparr>src = ''a b'', pos = 1\<rparr>)"
proof -
  let ?p = "\<lparr>src = ''a b'', pos = 0\<rparr>"
  let ?ops = "[OpReadBareToken, OpPeekAhead 3, OpSkipSpaces, OpNext, OpNext, OpPeek]"
  let ?ps = "[\<lparr>src = ''a b'', pos = 1\<rparr>, \<lparr>src = ''a b'', pos = 1\<rparr>, \<lparr>src = ''a b'', pos = 2\<rparr>,
          \<lparr>src = ''a b'', pos = 3\<rparr>, \<lparr>src = ''a b'', pos = 3\<rparr>, \<lparr>src = ''a b'', pos = 3\<rparr>]"
  have pre: "pos ?p \<le> length (src ?p)" by simp
  have ok: "list_all (opOk (src ?p)) ?ops" by simp
  have run: "scan_run ?p ?ops = Inr ?ps"
    by code_simp
  have "\<exists>ps. scan_run ?p ?ops = Inr ps \<and> length ps = length ?ops \<and> sorted (map pos (?p # ps))
        \<and> list_all (\<lambda>q. pos q \<le> length (src ?p) \<and> src q = src ?p) ps"
    using scanner_cursor_monotone_bounded_total[OF pre ok, THEN conjunct1] .
  then obtain ps where ps: "scan_run ?p ?ops = Inr ps \<and> length ps = length ?ops \<and> sorted (map pos (?p # ps))
        \<and> list_all (\<lambda>q. pos q \<le> length (src ?p) \<and> src q = src ?p) ps" ..
  from ps[THEN conjunct1] run have eq: "ps = ?ps" by simp
  have sorted: "sorted (map pos (?p # ?ps))"
    using ps[THEN conjunct2, THEN conjunct2, THEN conjunct1] unfolding eq .
  have pre3: "pos \<lparr>src = ''a b'', pos = 3\<rparr> \<le> length (src \<lparr>src = ''a b'', pos = 3\<rparr>)" by simp
  have ok0: "list_all (opOk (src q)) []" for q by simp
  have eof3: "eof \<lparr>src = ''a b'', pos = 3\<rparr>" by (simp add: eof_def)
  have next3: "scan_step \<lparr>src = ''a b'', pos = 3\<rparr> OpNext = Inr (OutByte NUL, \<lparr>src = ''a b'', pos = 3\<rparr>)"
    using scanner_cursor_monotone_bounded_total[OF pre3 ok0, THEN conjunct2, THEN conjunct1] eof3 by blast
  have pre1: "pos \<lparr>src = ''a b'', pos = 1\<rparr> \<le> length (src \<lparr>src = ''a b'', pos = 1\<rparr>)" by simp
  have "scan_step \<lparr>src = ''a b'', pos = 1\<rparr> (OpPeekAhead 5)
      = Inr (OutString (take (nat 5) (drop (pos \<lparr>src = ''a b'', pos = 1\<rparr>) (src \<lparr>src = ''a b'', pos = 1\<rparr>))),
         \<lparr>src = ''a b'', pos = 1\<rparr>)"
    using scanner_cursor_monotone_bounded_total[OF pre1 ok0, THEN conjunct2, THEN conjunct2, of 5] by simp
  then have ahead: "scan_step \<lparr>src = ''a b'', pos = 1\<rparr> (OpPeekAhead 5)
      = Inr (OutString '' b'', \<lparr>src = ''a b'', pos = 1\<rparr>)"
    by simp
  from pre ok run sorted eof3 next3 ahead show ?thesis by (intro conjI)
qed


section \<open>The types of the package's tests\<close>

text \<open>
  \<^verbatim>\<open>type Person struct { Name string `god:"name"`; Age int `god:"age"`; Address string
  `god:"addr"` }\<close> of \<^verbatim>\<open>god_test.go\<close>, and a library for the closed examples: its
  \<open>ParseFloat\<close> answers as Go's does on the tokens \<^verbatim>\<open>12\<close> and \<^verbatim>\<open>12.7\<close> (the bits of the
  nearest \<^verbatim>\<open>float64\<close>, 12 and 12.699999999999999289...) and fails on every other token;
  the other parameters are not reached by the examples. The integer quantities of the
  model that can be large (the value of an unsigned integer, the bits of a float) are
  \<^typ>\<open>int\<close>, not \<^typ>\<open>nat\<close>.
\<close>

definition fName :: finfo where "fName = \<lparr>fname = ''Name'', ftag = ''name'', fexported = True\<rparr>"
definition fAge :: finfo where "fAge = \<lparr>fname = ''Age'', ftag = ''age'', fexported = True\<rparr>"
definition fAddress :: finfo where "fAddress = \<lparr>fname = ''Address'', ftag = ''addr'', fexported = True\<rparr>"
definition PersonT :: gtype where
  "PersonT = TStruct [(fName, TString), (fAge, TInt 64), (fAddress, TString)]"
definition Person :: "string \<Rightarrow> int \<Rightarrow> string \<Rightarrow> gval" where
  "Person name age addr = VStruct [(fName, VString name), (fAge, VInt 64 age), (fAddress, VString addr)]"

definition exampleLib :: golib where
  "exampleLib =
     \<lparr>ParseFloat = (\<lambda>s. if s = ''12'' then Inr 0x4028000000000000
                         else if s = ''12.7'' then Inr 0x4029666666666666
                         else if s = ''300'' then Inr 0x4072C00000000000
                         else Inl (NumSyntax s)),
      FormatFloat = (\<lambda>f. []),
      Float64ofInt = (\<lambda>i. 0),
      Int64ofFloatOOR = (\<lambda>f. 0),
      Uint64ofFloatOOR = (\<lambda>f. 0),
      Float32Round = (\<lambda>f. f),
      QuoteU = (\<lambda>s. s),
      ToLowerU = (\<lambda>s. s),
      SprintV = (\<lambda>v. [])\<rparr>"

section \<open>Properties of the decoder\<close>

lemma decodeValue_Suc:
  "decodeValue (Suc n) L p target = decodeValueBody (decodeValue n L) n L p target"
  by simp

subsection \<open>The root of a document\<close>

text \<open>
  Claim C2 says that \<^verbatim>\<open>{"Hello World"}\<close> decodes into a string destination as
  \<^verbatim>\<open>Hello World\<close>. The code does not do that: \<^verbatim>\<open>Unmarshal\<close> looks inside the braces of
  the root only when the destination is a slice, so for a string destination
  \<^verbatim>\<open>parseStringValue\<close> meets the opening brace, \<^verbatim>\<open>readBareToken\<close> stops at once, and the
  destination is set to the empty string, with no error. This holds for every library,
  every previous content of the destination and any fuel above zero.
\<close>

theorem Unmarshal_root_string_is_empty:
  \<open>Unmarshal (Suc n) L ''{"Hello World"}'' (VPtr TString (Some (VString s0)))
     = Some (Inr (VString []))\<close>
  by code_simp

subsection \<open>The empty table\<close>

text \<open>
  Claim C5 says that the table \<^verbatim>\<open>()\<close> leaves a destination of type slice of structs equal
  to the empty sequence whatever the destination held before. The code returns from
  \<^verbatim>\<open>decodeTable\<close> without a \<^verbatim>\<open>target.Set\<close>: decoding succeeds and the destination keeps
  the elements \<open>old\<close> it had.
\<close>

theorem Unmarshal_empty_table_keeps_destination:
  "Unmarshal (Suc (Suc n)) L ''{()}''
       (VPtr (TSlice (TStruct fts)) (Some (VSlice (TStruct fts) old)))
     = Some (Inr (VSlice (TStruct fts) old))"
  by code_simp

subsection \<open>Bare tokens\<close>

text \<open>TrimSpace on tokens whose first and last byte are not part of a space rune.\<close>

definition edgeByte :: "char \<Rightarrow> bool" where
  "edgeByte c = ((0x21 :: nat) \<le> of_char c \<and> of_char c < (0x80 :: nat))"

lemma trimLeftSpace_id: "s = [] \<or> edgeByte (hd s) \<Longrightarrow> trimLeftSpace s = s"
proof -
  assume a: "s = [] \<or> edgeByte (hd s)"
  have "\<not> isPrefixOf e s" if "e \<in> set spaceRunes" for e
  proof (cases s)
    case Nil
    with that show ?thesis by (auto simp: isPrefixOf_def dest: spaceRunes_nonempty)
  next
    case (Cons c cs)
    with a have "edgeByte c" by simp
    with that Cons show ?thesis
      by (auto simp: isPrefixOf_def spaceRunes_def edgeByte_def)
  qed
  then have "List.find (\<lambda>e. isPrefixOf e s) spaceRunes = None"
    by (simp add: find_None_iff)
  then show ?thesis by (subst trimLeftSpace.simps) simp
qed

lemma trimRightSpace_id: "s = [] \<or> edgeByte (last s) \<Longrightarrow> trimRightSpace s = s"
proof -
  assume a: "s = [] \<or> edgeByte (last s)"
  have "\<not> isSuffixOf e s" if "e \<in> set spaceRunes" for e
  proof
    assume suf: "isSuffixOf e s"
    from that have ne: "e \<noteq> []" by (rule spaceRunes_nonempty)
    with suf have sne: "s \<noteq> []" by (auto simp: isSuffixOf_def)
    from suf have "s = take (length s - length e) s @ e"
      by (metis append_take_drop_id isSuffixOf_def)
    with ne have "last s = last e" by (metis last_appendR)
    with a sne have "edgeByte (last e)" by simp
    with that show False by (auto simp: spaceRunes_def edgeByte_def)
  qed
  then have "List.find (\<lambda>e. isSuffixOf e s) spaceRunes = None"
    by (simp add: find_None_iff)
  then show ?thesis by (subst trimRightSpace.simps) simp
qed

lemma TrimSpace_id: "s = [] \<or> (edgeByte (hd s) \<and> edgeByte (last s)) \<Longrightarrow> TrimSpace s = s"
  by (auto simp: TrimSpace_def trimLeftSpace_id trimRightSpace_id)

text \<open>A bare token in the input: no delimiter inside, a delimiter or the end behind it.\<close>

definition bareTok :: "string \<Rightarrow> bool" where
  "bareTok t = (list_all (\<lambda>c. \<not> isDelim c) t \<and> TrimSpace t = t)"

lemma takeWhile_tok:
  "list_all (\<lambda>c. \<not> isDelim c) t \<Longrightarrow> r = [] \<or> isDelim (hd r) \<Longrightarrow>
   takeWhile (\<lambda>c. \<not> isDelim c) (t @ r) = t"
  by (cases r) (auto simp: list_all_iff takeWhile_append2 intro: takeWhile_eq_all_conv[THEN iffD2])

lemma readBareToken_tok:
  assumes "bareTok t" "r = [] \<or> isDelim (hd r)" "rest p = t @ r" "t = [] \<or> \<not> isSpaceB (hd t)"
    "t \<noteq> [] \<or> r = [] \<or> \<not> isSpaceB (hd r)"
  shows "readBareToken p = (t, adv (length t) p)"
proof -
  have ns: "takeWhile isSpaceB (t @ r) = []"
    using assms(4,5) by (cases t; cases r) auto
  then have dw: "dropWhile isSpaceB (t @ r) = t @ r"
    by (metis append_Nil takeWhile_dropWhile_id)
  show ?thesis
    using assms(1,2) by (simp add: readBareToken_rest assms(3) ns dw Let_def takeWhile_tok bareTok_def)
qed


lemma takeWhile_app_all:
  "list_all P ws \<Longrightarrow> x = [] \<or> \<not> P (hd x) \<Longrightarrow> takeWhile P (ws @ x) = ws"
proof (induction ws)
  case Nil
  then show ?case by (cases x) auto
next
  case (Cons a ws)
  then show ?case by simp
qed

lemma skipSpaces_ws:
  "list_all isSpaceB ws \<Longrightarrow> rest p = ws @ x \<Longrightarrow> x = [] \<or> \<not> isSpaceB (hd x) \<Longrightarrow>
   skipSpaces p = adv (length ws) p"
  by (simp add: skipSpaces_rest takeWhile_app_all)

lemma bareTok_hd_not_space: "bareTok t \<Longrightarrow> t \<noteq> [] \<Longrightarrow> \<not> isSpaceB (hd t)"
  by (cases t) (auto simp: bareTok_def isDelim_def isSpaceB_def)

lemma parseNumber_tok:
  assumes "bareTok t" "t \<noteq> []" "rest p = t @ r" "r = [] \<or> isDelim (hd r)"
  shows "parseNumber L p =
     (case ParseFloat L t of Inl e \<Rightarrow> Inl e | Inr f \<Rightarrow> Inr (f, adv (length t) p))"
  using assms readBareToken_tok[OF assms(1,4,3)] bareTok_hd_not_space[OF assms(1,2)]
  by (simp add: parseNumber_def)

subsection \<open>Integer destinations\<close>

text \<open>
  The number that a finite \<^verbatim>\<open>float64\<close> stands for (IEEE 754 binary64) is the fraction
  \<open>f64_num f / f64_den f\<close>: with sign \<open>s\<close>, biased exponent \<open>e\<close> and fraction bits \<open>m\<close> it is
  \<^verbatim>\<open>(-1)^s * (2^52 + m) * 2^(e - 1075)\<close>, and \<^verbatim>\<open>(-1)^s * m * 2^(-1074)\<close> when \<open>e = 0\<close>. \<open>truncQ a b\<close> is the
  fraction \<open>a / b\<close> truncated towards zero: the integer of the sign of \<open>a\<close> whose absolute
  value is the largest with \<open>\<bar>truncQ a b\<bar> * b \<le> \<bar>a\<bar>\<close> (\<open>truncQ_bounds\<close>). The conversion of
  the model, \<open>f64_trunc\<close>, computes exactly that (\<open>f64_trunc_value\<close>).
\<close>

definition f64_num :: "64 word \<Rightarrow> int" where
  "f64_num f =
     (let m = (if f64_exp f = 0 then f64_frac f else 2 ^ 52 + f64_frac f);
          e = (if f64_exp f = 0 then 1 else f64_exp f) - 1075
      in (if f64_sign f = 1 then - 1 else 1) * m * 2 ^ nat e)"

definition f64_den :: "64 word \<Rightarrow> int" where
  "f64_den f = 2 ^ nat (1075 - (if f64_exp f = 0 then 1 else f64_exp f))"

definition truncQ :: "int \<Rightarrow> int \<Rightarrow> int" where
  "truncQ a b = (if a < 0 then - ((- a) div b) else a div b)"

lemma truncQ_bounds:
  assumes "0 < b"
  shows "\<bar>truncQ a b\<bar> * b \<le> \<bar>a\<bar>" "\<bar>a\<bar> < (\<bar>truncQ a b\<bar> + 1) * b"
    "0 \<le> a \<Longrightarrow> 0 \<le> truncQ a b" "a \<le> 0 \<Longrightarrow> truncQ a b \<le> 0"
proof -
  have d: "0 \<le> \<bar>a\<bar> div b" using assms by (simp add: pos_imp_zdiv_nonneg_iff)
  have t: "\<bar>truncQ a b\<bar> = \<bar>a\<bar> div b" using d by (auto simp: truncQ_def abs_if)
  have e1: "\<bar>a\<bar> div b * b + \<bar>a\<bar> mod b = \<bar>a\<bar>" by simp
  have m1: "0 \<le> \<bar>a\<bar> mod b" and m2: "\<bar>a\<bar> mod b < b" using assms by simp_all
  have g1: "\<bar>a\<bar> div b * b \<le> \<bar>a\<bar>" using e1 m1 by linarith
  have "(\<bar>a\<bar> div b + 1) * b = \<bar>a\<bar> div b * b + b" by (simp add: algebra_simps)
  then have g2: "\<bar>a\<bar> < (\<bar>a\<bar> div b + 1) * b" using e1 m2 by linarith
  show "\<bar>truncQ a b\<bar> * b \<le> \<bar>a\<bar>" unfolding t by (rule g1)
  show "\<bar>a\<bar> < (\<bar>truncQ a b\<bar> + 1) * b" unfolding t by (rule g2)
  show "0 \<le> a \<Longrightarrow> 0 \<le> truncQ a b" using assms by (simp add: truncQ_def pos_imp_zdiv_nonneg_iff)
  show "a \<le> 0 \<Longrightarrow> truncQ a b \<le> 0" using assms
    by (auto simp: truncQ_def pos_imp_zdiv_nonneg_iff)
qed

lemma f64_frac_bounds: "0 \<le> f64_frac f" "f64_frac f < 2 ^ 52"
  by (simp_all add: f64_frac_def)

lemma f64_exp_bounds: "0 \<le> f64_exp f" "f64_exp f < 2048"
  by (simp_all add: f64_exp_def)

lemma f64_trunc_value:
  assumes "f64_exp f \<noteq> 2047"
  shows "f64_trunc f = Some (truncQ (f64_num f) (f64_den f))"
proof -
  let ?e = "f64_exp f"
  let ?m = "if ?e = 0 then f64_frac f else 2 ^ 52 + f64_frac f"
  let ?x = "if ?e = 0 then 1 else ?e"
  let ?a = "?m * 2 ^ nat (?x - 1075)"
  let ?den = "(2::int) ^ nat (1075 - ?x)"
  let ?imag = "if ?e < 1023 then 0
               else if ?e \<ge> 1075 then (2 ^ 52 + f64_frac f) * 2 ^ nat (?e - 1075)
               else (2 ^ 52 + f64_frac f) div 2 ^ nat (1075 - ?e)"
  note fb = f64_frac_bounds[of f] and eb = f64_exp_bounds[of f]
  have m0: "0 \<le> ?m" using fb by simp
  have m53: "?m < 2 ^ 53" using fb by simp
  have a0: "0 \<le> ?a" using m0 by (intro mult_nonneg_nonneg) simp_all
  have fl: "?a div ?den = ?imag"
  proof (cases "?e < 1023")
    case True
    then have k: "53 \<le> nat (1075 - ?x)" by auto
    have "(2::int) ^ 53 \<le> 2 ^ nat (1075 - ?x)" using k by (intro power_increasing) simp_all
    with m53 have "?m < ?den" by linarith
    with m0 have "?m div ?den = 0" by (simp add: div_pos_pos_trivial)
    then have md: "?a div ?den = 0" using True by auto
    show ?thesis unfolding md using True by simp
  next
    case False
    then have x: "?x = ?e" "?m = 2 ^ 52 + f64_frac f" by auto
    show ?thesis
    proof (cases "?e \<ge> 1075")
      case True
      then show ?thesis using False unfolding x by simp
    next
      case f: False
      with False show ?thesis unfolding x by simp
    qed
  qed
  have n: "f64_num f = (if f64_sign f = 1 then - ?a else ?a)"
    by (simp add: f64_num_def Let_def)
  have "truncQ (f64_num f) (f64_den f) = (if f64_sign f = 1 then - ?imag else ?imag)"
  proof (cases "f64_sign f = 1")
    case True
    show ?thesis
    proof (cases "?a = 0")
      case z: True
      have "f64_num f = 0" unfolding n using z by simp
      moreover have "?imag = 0" using fl z by simp
      ultimately show ?thesis using True by (simp add: truncQ_def)
    next
      case nz: False
      with a0 have "- ?a < 0" by linarith
      then show ?thesis using True fl unfolding n f64_den_def truncQ_def by simp
    qed
  next
    case False
    then show ?thesis using a0 fl unfolding n f64_den_def truncQ_def by simp
  qed
  then show ?thesis using assms by (simp add: f64_trunc_def Let_def)
qed

lemma wrapInt_id: "0 < w \<Longrightarrow> - (2 ^ (w - 1)) \<le> x \<Longrightarrow> x < 2 ^ (w - 1) \<Longrightarrow> wrapInt w x = x"
proof -
  assume w: "0 < w" and lo: "- (2 ^ (w - 1)) \<le> x" and hi: "x < 2 ^ (w - 1)"
  from w have "(2::int) ^ w = 2 * 2 ^ (w - 1)" by (cases w) simp_all
  with lo hi show ?thesis by (simp add: wrapInt_def mod_pos_pos_trivial)
qed

lemma wrapUint_id: "0 \<le> x \<Longrightarrow> x < 2 ^ w \<Longrightarrow> wrapUint w x = x"
  by (simp add: wrapUint_def mod_pos_pos_trivial)

lemma pow_le_63: "0 < w \<Longrightarrow> w \<le> 64 \<Longrightarrow> (2::int) ^ (w - 1) \<le> 2 ^ 63"
  by (intro power_increasing) simp_all

lemma pow_le_64: "w \<le> 64 \<Longrightarrow> (2::int) ^ w \<le> 2 ^ 64"
  by (intro power_increasing) simp_all

text \<open>
  Not every integer destination is filled that way, and not every truncation is stored as
  it is. A cell of a table goes through \<^verbatim>\<open>setFieldFromString\<close>, which parses an integer
  field with \<^verbatim>\<open>strconv.ParseInt\<close>: the cell \<^verbatim>\<open>12.7\<close> is a syntax error, and so is the table
  \<^verbatim>\<open>{(name,age:"J",12.7;)}\<close>. And \<^verbatim>\<open>SetInt\<close> keeps the low bits only: the token \<^verbatim>\<open>300\<close>
  decoded into an \<^verbatim>\<open>int8\<close> stores 44.
\<close>

theorem int_destination_rejects_or_wraps:
  \<open>setFieldFromString exampleLib (VInt 64 0) ''12.7'' = Inl (NumSyntax ''12.7'')
   \<and> Unmarshal 9 exampleLib ''{(name,age:"J",12.7;)}'' (VPtr (TSlice PersonT) (Some (VSlice PersonT [])))
       = Some (Inl (NumSyntax ''12.7''))
   \<and> decodeValue 1 exampleLib \<lparr>src = ''300'', pos = 0\<rparr> (VInt 8 0)
       = Some (Inr (VInt 8 44, \<lparr>src = ''300'', pos = 3\<rparr>))\<close>
  by code_simp

text \<open>
  Claim C9, for the destinations that \<^verbatim>\<open>decodeValue\<close> fills (a field of a record, an element
  of a list, a value of a map, the root; not a cell of a table). For a signed or an
  unsigned integer destination of width \<open>w\<close>, \<^verbatim>\<open>decodeValue\<close> reads the next bare token
  \<open>tok\<close> and hands it to \<^verbatim>\<open>strconv.ParseFloat\<close>; when that returns a finite \<^verbatim>\<open>float64\<close> \<open>f\<close>,
  the call succeeds and the destination holds the value of \<open>f\<close> truncated towards zero:
  the truncation itself when it fits the width \<open>w\<close>, and the low \<open>w\<close> bits of it (as
  \<^verbatim>\<open>SetInt\<close> and \<^verbatim>\<open>SetUint\<close> store them) when it fits \<^verbatim>\<open>int64\<close> (\<^verbatim>\<open>uint64\<close>). No integer syntax
  is asked of the token.
\<close>

theorem decodeValue_int_truncates_float:
  assumes tok: "bareTok tok" "tok \<noteq> []"
    and inp: "rest p = ws @ tok @ r" "list_all isSpaceB ws" "r = [] \<or> isDelim (hd r)"
    and pf: "ParseFloat L tok = Inr f"
    and fin: "f64_exp f \<noteq> 2047"
    and w: "0 < w" "w \<le> 64"
  shows "(- (2 ^ (w - 1)) \<le> truncQ (f64_num f) (f64_den f) \<and> truncQ (f64_num f) (f64_den f) < 2 ^ (w - 1) \<longrightarrow>
            decodeValue (Suc n) L p (VInt w old)
              = Some (Inr (VInt w (truncQ (f64_num f) (f64_den f)), adv (length ws + length tok) p)))
       \<and> (- (2 ^ 63) \<le> truncQ (f64_num f) (f64_den f) \<and> truncQ (f64_num f) (f64_den f) < 2 ^ 63 \<longrightarrow>
            decodeValue (Suc n) L p (VInt w old)
              = Some (Inr (VInt w (wrapInt w (truncQ (f64_num f) (f64_den f))), adv (length ws + length tok) p)))
       \<and> (0 \<le> truncQ (f64_num f) (f64_den f) \<and> truncQ (f64_num f) (f64_den f) < 2 ^ w \<longrightarrow>
            decodeValue (Suc n) L p (VUint w old')
              = Some (Inr (VUint w (truncQ (f64_num f) (f64_den f)), adv (length ws + length tok) p)))
       \<and> (0 \<le> truncQ (f64_num f) (f64_den f) \<and> truncQ (f64_num f) (f64_den f) < 2 ^ 64 \<longrightarrow>
            decodeValue (Suc n) L p (VUint w old')
              = Some (Inr (VUint w (wrapUint w (truncQ (f64_num f) (f64_den f))), adv (length ws + length tok) p)))"
proof -
  let ?t = "truncQ (f64_num f) (f64_den f)"
  have sk: "skipSpaces p = adv (length ws) p"
    using inp(1,2) tok bareTok_hd_not_space[OF tok] by (intro skipSpaces_ws[where x = "tok @ r"]) auto
  have "rest (adv (length ws) p) = tok @ r" using inp(1) by simp
  from parseNumber_tok[OF tok this inp(3), of L] pf
  have pn: "parseNumber L (adv (length ws) p) = Inr (f, adv (length ws + length tok) p)"
    by simp
  have tr: "f64_trunc f = Some ?t" using fin by (rule f64_trunc_value)
  have i64: "decodeValue (Suc n) L p (VInt w old)
              = Some (Inr (VInt w (wrapInt w ?t), adv (length ws + length tok) p))"
    if "- (2 ^ 63) \<le> ?t \<and> ?t < 2 ^ 63"
    using tr that by (simp add: decodeValueBody_def sk pn Int64ofFloat_def
        del: decodeValue.simps adv_simps(4) add: decodeValue_Suc)
  have u64: "decodeValue (Suc n) L p (VUint w old')
              = Some (Inr (VUint w (wrapUint w ?t), adv (length ws + length tok) p))"
    if "0 \<le> ?t \<and> ?t < 2 ^ 64"
    using tr that by (simp add: decodeValueBody_def sk pn Uint64ofFloat_def
        del: decodeValue.simps adv_simps(4) add: decodeValue_Suc)
  have iw: "decodeValue (Suc n) L p (VInt w old)
              = Some (Inr (VInt w ?t, adv (length ws + length tok) p))"
    if a: "- (2 ^ (w - 1)) \<le> ?t \<and> ?t < 2 ^ (w - 1)"
  proof -
    from a pow_le_63[OF w] have "- (2 ^ 63) \<le> ?t \<and> ?t < 2 ^ 63" by linarith
    from i64[OF this] wrapInt_id[OF w(1), of ?t] a show ?thesis by simp
  qed
  have uw: "decodeValue (Suc n) L p (VUint w old')
              = Some (Inr (VUint w ?t, adv (length ws + length tok) p))"
    if a: "0 \<le> ?t \<and> ?t < 2 ^ w"
  proof -
    from a pow_le_64[OF w(2)] have "0 \<le> ?t \<and> ?t < 2 ^ 64" by linarith
    from u64[OF this] wrapUint_id[of ?t w] a show ?thesis by simp
  qed
  from iw i64 uw u64 show ?thesis by blast
qed

text \<open>
  The token \<^verbatim>\<open>12.7\<close>: \<^verbatim>\<open>ParseFloat\<close> returns the \<^verbatim>\<open>float64\<close> with the bits
  \<open>0x4029666666666666\<close>, which stands for 7149464408450662 / 562949953421312; its
  truncation is 12, and an \<^verbatim>\<open>int\<close>, a \<^verbatim>\<open>uint\<close> and an \<^verbatim>\<open>int8\<close> destination all receive 12.
\<close>

theorem decodeValue_int_truncates_float_witness:
  "bareTok ''12.7''
   \<and> ParseFloat exampleLib ''12.7'' = Inr 0x4029666666666666
   \<and> f64_num 0x4029666666666666 = 7149464408450662
   \<and> f64_den 0x4029666666666666 = 562949953421312
   \<and> truncQ (f64_num 0x4029666666666666) (f64_den 0x4029666666666666) = 12
   \<and> decodeValue 1 exampleLib \<lparr>src = ''12.7;'', pos = 0\<rparr> (VInt 64 0)
      = Some (Inr (VInt 64 12, \<lparr>src = ''12.7;'', pos = 4\<rparr>))
   \<and> decodeValue 1 exampleLib \<lparr>src = ''12.7;'', pos = 0\<rparr> (VUint 64 0)
      = Some (Inr (VUint 64 12, \<lparr>src = ''12.7;'', pos = 4\<rparr>))
   \<and> decodeValue 1 exampleLib \<lparr>src = ''12.7;'', pos = 0\<rparr> (VInt 8 0)
      = Some (Inr (VInt 8 12, \<lparr>src = ''12.7;'', pos = 4\<rparr>))"
proof -
  have tok: "bareTok ''12.7''"
    by (simp add: bareTok_def isDelim_def TrimSpace_id edgeByte_def)
  have r: "rest \<lparr>src = ''12.7;'', pos = 0\<rparr> = [] @ ''12.7'' @ '';''" by (simp add: rest_def)
  have pf: "ParseFloat exampleLib ''12.7'' = Inr 0x4029666666666666" by (simp add: exampleLib_def)
  have fin: "f64_exp 0x4029666666666666 \<noteq> 2047" by (simp add: f64_exp_def)
  have nu: "f64_num 0x4029666666666666 = 7149464408450662"
    by (simp add: f64_num_def f64_exp_def f64_frac_def f64_sign_def Let_def)
  have de: "f64_den 0x4029666666666666 = 562949953421312"
    by (simp add: f64_den_def f64_exp_def)
  have t: "truncQ (f64_num 0x4029666666666666) (f64_den 0x4029666666666666) = 12"
    unfolding nu de by (simp add: truncQ_def)
  from decodeValue_int_truncates_float[OF tok _ r _ _ pf fin, where w = 64 and n = 0 and old = 0 and old' = 0]
  have A: "decodeValue 1 exampleLib \<lparr>src = ''12.7;'', pos = 0\<rparr> (VInt 64 0)
      = Some (Inr (VInt 64 12, \<lparr>src = ''12.7;'', pos = 4\<rparr>))
    \<and> decodeValue 1 exampleLib \<lparr>src = ''12.7;'', pos = 0\<rparr> (VUint 64 0)
      = Some (Inr (VUint 64 12, \<lparr>src = ''12.7;'', pos = 4\<rparr>))"
    unfolding t by (simp add: adv_def isDelim_def)
  from decodeValue_int_truncates_float[OF tok _ r _ _ pf fin, where w = 8 and n = 0 and old = 0 and old' = 0]
  have B: "decodeValue 1 exampleLib \<lparr>src = ''12.7;'', pos = 0\<rparr> (VInt 8 0)
      = Some (Inr (VInt 8 12, \<lparr>src = ''12.7;'', pos = 4\<rparr>))"
    unfolding t by (simp add: adv_def isDelim_def)
  from tok pf nu de t A B show ?thesis by (intro conjI) simp_all
qed

subsection \<open>skipValue\<close>



subsection \<open>Skipping the value of an unknown key\<close>

text \<open>\<open>reaches p p'\<close>: \<open>p'\<close> is \<open>p\<close> with the cursor moved forward, not beyond the input.\<close>

definition reaches :: "parser \<Rightarrow> parser \<Rightarrow> bool" where
  "reaches p p' = (\<exists>k. p' = adv k p \<and> k \<le> length (rest p))"

lemma reaches_refl [simp]: "reaches p p"
  by (auto simp: reaches_def intro: exI[of _ 0])
































subsection \<open>Rows of a table\<close>

text \<open>
  \<open>rowScan\<close> is the cell loop of \<^verbatim>\<open>decodeTable\<close> without the struct: it reads the cells of
  one row and returns them.
\<close>

fun rowScan :: "nat \<Rightarrow> parser \<Rightarrow> (error + string list \<times> parser) option" where
  "rowScan 0 p = None"
| "rowScan (Suc n) p =
     (let p1 = skipSpaces p
      in if peek p1 = CHR '';'' then Some (Inr ([], snd (next_p p1)))
         else if peek p1 = CHR '')'' then Some (Inr ([], p1))
         else
           (case readCell p1 of
              Inl e \<Rightarrow> Some (Inl e)
            | Inr (cellStr, p2) \<Rightarrow>
                (let p3 = skipSpaces p2;
                     p4 = (if peek p3 = CHR '','' then snd (next_p p3) else p3)
                 in case rowScan n p4 of
                      None \<Rightarrow> None
                    | Some (Inl e) \<Rightarrow> Some (Inl e)
                    | Some (Inr (cells, q)) \<Rightarrow> Some (Inr (cellStr # cells, q)))))"

lemma setFieldFromString_empty: "setFieldFromString L field [] = Inr field"
  by (simp add: setFieldFromString_def)

lemma setCell_beyond: "length headers \<le> k \<Longrightarrow> setCell L headers fm sv k c = Inr sv"
  by (simp add: setCell_def)

lemma setCell_keeps:
  assumes "setCell L headers fm sv k c = Inr sv1"
  shows "length sv1 = length sv"
    and "(k < length headers \<and> fm (headers ! k) = Some i \<longrightarrow> c = []) \<Longrightarrow> sv1 ! i = sv ! i"
proof -
  show "length sv1 = length sv"
    using assms by (auto simp: setCell_def split: if_splits option.splits sum.splits)
  assume h: "k < length headers \<and> fm (headers ! k) = Some i \<longrightarrow> c = []"
  show "sv1 ! i = sv ! i"
  proof (cases "k < length headers")
    case False
    with assms show ?thesis by (simp add: setCell_def)
  next
    case True
    show ?thesis
    proof (cases "fm (headers ! k)")
      case None
      with assms True show ?thesis by (simp add: setCell_def)
    next
      case (Some fi)
      show ?thesis
      proof (cases "fi = i")
        case False
        with assms True Some show ?thesis
          by (auto simp: setCell_def split: sum.splits)
      next
        case fi: True
        with h True Some have "c = []" by simp
        with assms True Some fi show ?thesis
          by (auto simp: setCell_def setFieldFromString_empty)
      qed
    qed
  qed
qed

lemma tableCells_beyond_header:
  "length headers \<le> k \<Longrightarrow>
   tableCells n L headers fm p sv k =
     (case rowScan n p of
        None \<Rightarrow> None
      | Some (Inl e) \<Rightarrow> Some (Inl e)
      | Some (Inr (cells, q)) \<Rightarrow> Some (Inr (sv, q)))"
proof (induction n arbitrary: p k)
  case 0
  then show ?case by simp
next
  case (Suc n)
  have ih: "tableCells n L headers fm q sv (Suc k) =
     (case rowScan n q of None \<Rightarrow> None | Some (Inl e) \<Rightarrow> Some (Inl e)
      | Some (Inr (cells, q')) \<Rightarrow> Some (Inr (sv, q')))" for q
    using Suc.prems by (intro Suc.IH) simp
  show ?case
    using Suc.prems
    by (auto simp: Let_def setCell_beyond ih split: sum.splits option.splits prod.splits)
qed

lemma tableCells_grounded:
  "tableCells n L headers fm p sv k = Some (Inr (sv', p')) \<Longrightarrow>
   \<exists>cells. rowScan n p = Some (Inr (cells, p')) \<and> length sv' = length sv
     \<and> (\<forall>i<length sv.
          (\<forall>j<length cells. k + j < length headers \<and> fm (headers ! (k + j)) = Some i
              \<longrightarrow> cells ! j = [])
          \<longrightarrow> sv' ! i = sv ! i)"
proof (induction n arbitrary: p sv k)
  case 0
  then show ?case by simp
next
  case (Suc n)
  let ?p1 = "skipSpaces p"
  show ?case
  proof (cases "peek ?p1 = CHR '';'' \<or> peek ?p1 = CHR '')''")
    case True
    with Suc.prems show ?thesis by (auto simp: Let_def)
  next
    case False
    with Suc.prems obtain c p2 where rc: "readCell ?p1 = Inr (c, p2)"
      by (auto simp: Let_def split: sum.splits)
    with Suc.prems False obtain sv1 where sc: "setCell L headers fm sv k c = Inr sv1"
      by (auto simp: Let_def split: sum.splits)
    let ?p3 = "skipSpaces p2"
    let ?p4 = "if peek ?p3 = CHR '','' then snd (next_p ?p3) else ?p3"
    from Suc.prems False rc sc
    have rec: "tableCells n L headers fm ?p4 sv1 (Suc k) = Some (Inr (sv', p'))"
      by (auto simp: Let_def)
    from Suc.IH[OF rec] obtain cells where
      rs: "rowScan n ?p4 = Some (Inr (cells, p'))" and len: "length sv' = length sv1"
      and keep: "\<And>i. i < length sv1 \<Longrightarrow>
          (\<forall>j<length cells. Suc k + j < length headers \<and> fm (headers ! (Suc k + j)) = Some i
              \<longrightarrow> cells ! j = []) \<Longrightarrow> sv' ! i = sv1 ! i"
      by blast
    have rs': "rowScan (Suc n) p = Some (Inr (c # cells, p'))"
      using False rc rs by (auto simp: Let_def)
    have l1: "length sv1 = length sv" by (rule setCell_keeps(1)[OF sc])
    have "sv' ! i = sv ! i"
      if i: "i < length sv"
        and h: "\<forall>j<length (c # cells). k + j < length headers \<and> fm (headers ! (k + j)) = Some i
              \<longrightarrow> (c # cells) ! j = []" for i
    proof -
      from h[rule_format, of 0] have h0: "k < length headers \<and> fm (headers ! k) = Some i \<longrightarrow> c = []"
        by simp
      have hs: "\<forall>j<length cells. Suc k + j < length headers \<and> fm (headers ! (Suc k + j)) = Some i
              \<longrightarrow> cells ! j = []"
        using h[rule_format, of "Suc j" for j] by auto
      from keep[OF _ hs] i l1 have "sv' ! i = sv1 ! i" by simp
      also have "\<dots> = sv ! i" by (rule setCell_keeps(2)[OF sc h0])
      finally show ?thesis .
    qed
    with rs' len l1 show ?thesis by auto
  qed
qed

text \<open>
  \<open>tableScan\<close> is the row loop of \<^verbatim>\<open>decodeTable\<close> without the structs: it returns the cells
  of every row.
\<close>

fun tableScan :: "nat \<Rightarrow> parser \<Rightarrow> (error + string list list \<times> parser) option" where
  "tableScan 0 p = None"
| "tableScan (Suc n) p =
     (let p1 = skipSpaces p
      in if peek p1 = CHR '')'' then Some (Inr ([], snd (next_p p1)))
         else (case rowScan n p1 of
                 None \<Rightarrow> None
               | Some (Inl e) \<Rightarrow> Some (Inl e)
               | Some (Inr (cells, p2)) \<Rightarrow>
                   (case tableScan n p2 of
                      None \<Rightarrow> None
                    | Some (Inl e) \<Rightarrow> Some (Inl e)
                    | Some (Inr (rows, q)) \<Rightarrow> Some (Inr (cells # rows, q)))))"

lemma tableRows_grounded:
  "tableRows n L headers fm fts p sl = Some (Inr (sl', p')) \<Longrightarrow>
   \<exists>rows new. tableScan n p = Some (Inr (rows, p')) \<and> sl' = sl @ new \<and> length new = length rows
     \<and> (\<forall>r<length rows. \<exists>sv. new ! r = VStruct sv \<and> length sv = length fts
          \<and> (\<forall>i<length fts.
                (\<forall>j<length (rows ! r). j < length headers \<and> fm (headers ! j) = Some i
                    \<longrightarrow> rows ! r ! j = [])
                \<longrightarrow> sv ! i = (fst (fts ! i), zeroVal (snd (fts ! i)))))"
proof (induction n arbitrary: p sl)
  case 0
  then show ?case by simp
next
  case (Suc n)
  let ?p1 = "skipSpaces p"
  let ?zero = "map (\<lambda>(fi, t). (fi, zeroVal t)) fts"
  show ?case
  proof (cases "peek ?p1 = CHR '')''")
    case True
    with Suc.prems have "sl' = sl" "p' = snd (next_p ?p1)" by (auto simp: Let_def)
    with True show ?thesis by (intro exI[of _ "[]"]) (simp add: Let_def)
  next
    case False
    with Suc.prems obtain sv p2 where tc: "tableCells n L headers fm ?p1 ?zero 0 = Some (Inr (sv, p2))"
      and tr: "tableRows n L headers fm fts p2 (sl @ [VStruct sv]) = Some (Inr (sl', p'))"
      by (auto simp: Let_def split: option.splits sum.splits)
    from tableCells_grounded[OF tc] obtain cells where
      rs: "rowScan n ?p1 = Some (Inr (cells, p2))" and len: "length sv = length ?zero"
      and keep: "\<forall>i<length ?zero.
          (\<forall>j<length cells. 0 + j < length headers \<and> fm (headers ! (0 + j)) = Some i \<longrightarrow> cells ! j = [])
          \<longrightarrow> sv ! i = ?zero ! i"
      by blast
    from Suc.IH[OF tr] obtain rows new where
      ts: "tableScan n p2 = Some (Inr (rows, p'))" and sl': "sl' = (sl @ [VStruct sv]) @ new"
      and ln: "length new = length rows"
      and gr: "\<forall>r<length rows. \<exists>sv. new ! r = VStruct sv \<and> length sv = length fts
          \<and> (\<forall>i<length fts.
                (\<forall>j<length (rows ! r). j < length headers \<and> fm (headers ! j) = Some i
                    \<longrightarrow> rows ! r ! j = [])
                \<longrightarrow> sv ! i = (fst (fts ! i), zeroVal (snd (fts ! i))))"
      by blast
    have z: "?zero ! i = (fst (fts ! i), zeroVal (snd (fts ! i)))" if "i < length fts" for i
      using that by (simp add: case_prod_beta)
    have g0: "\<forall>i<length fts.
          (\<forall>j<length cells. j < length headers \<and> fm (headers ! j) = Some i \<longrightarrow> cells ! j = [])
          \<longrightarrow> sv ! i = (fst (fts ! i), zeroVal (snd (fts ! i)))"
      using keep z by simp
    have a: "tableScan (Suc n) p = Some (Inr (cells # rows, p'))"
      using False rs ts by (simp add: Let_def)
    have b: "sl' = sl @ (VStruct sv # new)" using sl' by simp
    have c: "length (VStruct sv # new) = length (cells # rows)" using ln by simp
    have d: "\<forall>r<length (cells # rows). \<exists>sv'. (VStruct sv # new) ! r = VStruct sv' \<and> length sv' = length fts
          \<and> (\<forall>i<length fts.
                (\<forall>j<length ((cells # rows) ! r). j < length headers \<and> fm (headers ! j) = Some i
                    \<longrightarrow> (cells # rows) ! r ! j = [])
                \<longrightarrow> sv' ! i = (fst (fts ! i), zeroVal (snd (fts ! i))))"
    proof (intro allI impI)
      fix r assume r: "r < length (cells # rows)"
      show "\<exists>sv'. (VStruct sv # new) ! r = VStruct sv' \<and> length sv' = length fts
          \<and> (\<forall>i<length fts.
                (\<forall>j<length ((cells # rows) ! r). j < length headers \<and> fm (headers ! j) = Some i
                    \<longrightarrow> (cells # rows) ! r ! j = [])
                \<longrightarrow> sv' ! i = (fst (fts ! i), zeroVal (snd (fts ! i))))"
      proof (cases r)
        case 0
        then show ?thesis using len g0 by simp
      next
        case (Suc r')
        with r have "r' < length rows" by simp
        with gr Suc show ?thesis by simp
      qed
    qed
    from a b c d show ?thesis by blast
  qed
qed

lemma decodeTable_rows:
  assumes "decodeTable n L p0 (TStruct fts) old = Some (Inr (v, p'))"
    and "tableHeader n (skipSpaces (snd (next_p p0))) [] = Some (False, headers, p)"
  shows "\<exists>sl'. v = VSlice (TStruct fts) sl'
      \<and> tableRows n L headers (fieldMap L fts) fts p [] = Some (Inr (sl', p'))"
  using assms by (auto simp: decodeTable_def Let_def split: if_splits option.splits sum.splits)

text \<open>
  Claim C6. Every row that the row loop of \<^verbatim>\<open>decodeTable\<close> appends to the slice is a struct
  of the element type in which field \<open>i\<close> holds its zero value, \<open>zeroVal\<close> of its type,
  when every cell of that row that the header maps to field \<open>i\<close> is empty; that holds in
  particular for a field no header maps to, and for a field whose cell is missing at the
  end of the row. Nothing of an earlier row or of the destination is left in it. The
  result of \<^verbatim>\<open>decodeTable\<close> behind a header is the slice of these rows. From the first cell
  beyond the header on, the cell loop only reads: it returns the struct unchanged, and an
  error only where the scanner reports one. An empty cell sets nothing. And the document
  \<^verbatim>\<open>{(name,age,addr:"John",12,;)}\<close> decodes to the one record with name \<^verbatim>\<open>John\<close>, age 12
  and the empty address, whatever the destination held.
\<close>

definition docTable :: string where
  \<open>docTable = ''{(name,age,addr:"John",12,;)}''\<close>

definition docTable2 :: string where
  \<open>docTable2 = ''{(name,age,addr:"A",1,"x";"B",2,;)}''\<close>

theorem table_row_cells_grounded:
  "(tableRows n L headers fm fts p sl = Some (Inr (sl', p')) \<longrightarrow>
      (\<exists>rows new. tableScan n p = Some (Inr (rows, p')) \<and> sl' = sl @ new \<and> length new = length rows
         \<and> (\<forall>r<length rows. \<exists>sv. new ! r = VStruct sv \<and> length sv = length fts
              \<and> (\<forall>i<length fts.
                    (\<forall>j<length (rows ! r). j < length headers \<and> fm (headers ! j) = Some i
                        \<longrightarrow> rows ! r ! j = [])
                    \<longrightarrow> sv ! i = (fst (fts ! i), zeroVal (snd (fts ! i)))))))
   \<and> (decodeTable n L p0 (TStruct fts) old = Some (Inr (v, q'))
        \<and> tableHeader n (skipSpaces (snd (next_p p0))) [] = Some (False, hs, q) \<longrightarrow>
      (\<exists>sl'. v = VSlice (TStruct fts) sl'
         \<and> tableRows n L hs (fieldMap L fts) fts q [] = Some (Inr (sl', q'))))
   \<and> (length headers \<le> k \<longrightarrow>
        tableCells n L headers fm p sv k =
          (case rowScan n p of
             None \<Rightarrow> None
           | Some (Inl e) \<Rightarrow> Some (Inl e)
           | Some (Inr (cells, q)) \<Rightarrow> Some (Inr (sv, q))))
   \<and> setFieldFromString L field [] = Inr field
   \<and> Unmarshal (Suc (Suc (Suc (Suc (Suc m))))) L docTable
        (VPtr (TSlice PersonT) (Some (VSlice PersonT old')))
        = Some (Inr (VSlice PersonT [Person ''John'' 12 []]))"
proof -
  have "Unmarshal (Suc (Suc (Suc (Suc (Suc m))))) L docTable
        (VPtr (TSlice PersonT) (Some (VSlice PersonT old')))
        = Some (Inr (VSlice PersonT [Person ''John'' 12 []]))"
    by code_simp
  then show ?thesis
    using tableRows_grounded[of n L headers fm fts p sl sl' p']
      decodeTable_rows[of n L p0 fts old v q' hs q]
      tableCells_beyond_header[of headers k n L fm p sv]
    by (simp add: setFieldFromString_empty)
qed

text \<open>
  The table \<^verbatim>\<open>{(name,age,addr:"A",1,"x";"B",2,;)}\<close>: the second row has the cells \<^verbatim>\<open>B\<close> and
  \<^verbatim>\<open>2\<close>, no cell of it is mapped to the third field, and the address of the second record
  is the empty string, not the \<^verbatim>\<open>x\<close> of the first. The row \<^verbatim>\<open>1,2;\<close> under an empty header:
  both cells are read and dropped.
\<close>

theorem table_row_cells_grounded_witness:
  "tableRows 6 exampleLib [''name'', ''age'', ''addr'']
       (fieldMap exampleLib [(fName, TString), (fAge, TInt 64), (fAddress, TString)])
       [(fName, TString), (fAge, TInt 64), (fAddress, TString)]
       \<lparr>src = docTable2, pos = 16\<rparr> []
     = Some (Inr ([Person ''A'' 1 ''x'', Person ''B'' 2 []], \<lparr>src = docTable2, pos = 34\<rparr>))
   \<and> tableScan 6 \<lparr>src = docTable2, pos = 16\<rparr>
       = Some (Inr ([[''A'', ''1'', ''x''], [''B'', ''2'']], \<lparr>src = docTable2, pos = 34\<rparr>))
   \<and> (\<exists>sv. [Person ''A'' 1 ''x'', Person ''B'' 2 []] ! 1 = VStruct sv
         \<and> sv ! 2 = (fAddress, zeroVal TString))
   \<and> tableCells 3 exampleLib [] Map.empty \<lparr>src = ''1,2;'', pos = 0\<rparr> [(fName, VString [])] 0
       = Some (Inr ([(fName, VString [])], \<lparr>src = ''1,2;'', pos = 4\<rparr>))
   \<and> Unmarshal (Suc (Suc (Suc (Suc (Suc 0))))) exampleLib docTable
        (VPtr (TSlice PersonT) (Some (VSlice PersonT [Person ''X'' 1 []])))
        = Some (Inr (VSlice PersonT [Person ''John'' 12 []]))"
proof -
  let ?hs = "[''name'', ''age'', ''addr'']"
  let ?fts = "[(fName, TString), (fAge, TInt 64), (fAddress, TString)]"
  let ?fm = "fieldMap exampleLib ?fts"
  let ?p = "\<lparr>src = docTable2, pos = 16\<rparr>"
  let ?q = "\<lparr>src = docTable2, pos = 34\<rparr>"
  let ?out = "[Person ''A'' 1 ''x'', Person ''B'' 2 []]"
  let ?cells = "[[''A'', ''1'', ''x''], [''B'', ''2'']]"
  have E: "tableRows 6 exampleLib ?hs ?fm ?fts ?p [] = Some (Inr (?out, ?q))" by code_simp
  have S: "tableScan 6 ?p = Some (Inr (?cells, ?q))" by code_simp
  have f0: "?fm ''name'' = Some 0" and f1: "?fm ''age'' = Some 1" by code_simp+
  note T = table_row_cells_grounded[of 6 exampleLib ?hs ?fm ?fts ?p "[]" ?out ?q]
  from T[THEN conjunct1, rule_format, OF E] obtain rows new where
    c: "tableScan 6 ?p = Some (Inr (rows, ?q))" and n: "?out = [] @ new"
    and g: "\<forall>r<length rows. \<exists>sv. new ! r = VStruct sv \<and> length sv = length ?fts
              \<and> (\<forall>i<length ?fts.
                    (\<forall>j<length (rows ! r). j < length ?hs \<and> ?fm (?hs ! j) = Some i
                        \<longrightarrow> rows ! r ! j = [])
                    \<longrightarrow> sv ! i = (fst (?fts ! i), zeroVal (snd (?fts ! i))))"
    by blast
  from c S have rows: "rows = ?cells" by simp
  from n have new: "new = ?out" by simp
  from g[rule_format, of 1] obtain sv where sv: "?out ! 1 = VStruct sv"
    and gi: "\<forall>i<length ?fts.
                    (\<forall>j<length (?cells ! 1). j < length ?hs \<and> ?fm (?hs ! j) = Some i
                        \<longrightarrow> ?cells ! 1 ! j = [])
                    \<longrightarrow> sv ! i = (fst (?fts ! i), zeroVal (snd (?fts ! i)))"
    unfolding rows new by auto
  have "\<forall>j<length (?cells ! 1). j < length ?hs \<and> ?fm (?hs ! j) = Some 2 \<longrightarrow> ?cells ! 1 ! j = []"
    using f0 f1 by (auto simp: less_Suc_eq numeral_2_eq_2)
  with gi[rule_format, of 2] have "sv ! 2 = (fAddress, zeroVal TString)" by simp
  with sv have addr: "\<exists>sv. ?out ! 1 = VStruct sv \<and> sv ! 2 = (fAddress, zeroVal TString)" by blast
  have R2: "rowScan 3 \<lparr>src = ''1,2;'', pos = 0\<rparr> = Some (Inr ([''1'', ''2''], \<lparr>src = ''1,2;'', pos = 4\<rparr>))"
    by code_simp
  from table_row_cells_grounded[where n = 3 and L = exampleLib and headers = "[]" and fm = Map.empty
      and p = "\<lparr>src = ''1,2;'', pos = 0\<rparr>" and sv = "[(fName, VString [])]" and k = 0,
      THEN conjunct2, THEN conjunct2, THEN conjunct1]
  have X: "tableCells 3 exampleLib [] Map.empty \<lparr>src = ''1,2;'', pos = 0\<rparr> [(fName, VString [])] 0
       = Some (Inr ([(fName, VString [])], \<lparr>src = ''1,2;'', pos = 4\<rparr>))"
    unfolding R2 by simp
  note U = table_row_cells_grounded[where m = 0 and L = exampleLib and old' = "[Person ''X'' 1 []]",
      THEN conjunct2, THEN conjunct2, THEN conjunct2, THEN conjunct2]
  from E S addr X U show ?thesis by (intro conjI)
qed


section \<open>Grounding\<close>

lemma typeOf_zeroVal [simp]: "typeOf (zeroVal t) = t"
proof (induction t)
  case (TStruct fts)
  have "map ((\<lambda>(fi, v). (fi, typeOf v)) \<circ> (\<lambda>(fi, t). (fi, zeroVal t))) fts = map (\<lambda>x. x) fts"
  proof (rule map_cong[OF refl])
    fix x assume x: "x \<in> set fts"
    obtain fi t where xt: "x = (fi, t)" by (cases x)
    with x have "t \<in> snd ` set fts" by force
    with TStruct xt x show "((\<lambda>(fi, v). (fi, typeOf v)) \<circ> (\<lambda>(fi, t). (fi, zeroVal t))) x = x"
      by (auto simp: snds.simps)
  qed
  then show ?case by simp
qed simp_all


subsection \<open>Zero-valued fields\<close>















section \<open>The two modes of the encoder\<close>

text \<open>
  \<open>noSpace\<close> deletes the white space of the format (space, tab, CR, LF). \<open>semiIns x y\<close>: the
  text \<open>y\<close> is the text \<open>x\<close> with a \<^verbatim>\<open>;\<close> put in front of some of its closing braces \<^verbatim>\<open>}\<close>.
  \<open>sameModulo\<close> relates the results of the two modes: the same error, or two texts that
  differ by white space and such \<^verbatim>\<open>;\<close> only. \<open>fieldsRel\<close> is the invariant of the loops of
  \<^verbatim>\<open>encodeStruct\<close> and \<^verbatim>\<open>encodeMap\<close>: the compact text has its \<^verbatim>\<open>;\<close> between the entries (and
  in front of the first when \<^verbatim>\<open>first\<close> is false), the indented text has one behind every
  entry.
\<close>

definition noSpace :: "string \<Rightarrow> string" where
  "noSpace s = filter (\<lambda>c. \<not> isSpaceB c) s"

inductive semiIns :: "string \<Rightarrow> string \<Rightarrow> bool" where
  Nil: "semiIns [] []"
| Keep: "semiIns x y \<Longrightarrow> semiIns (c # x) (c # y)"
| Ins: "semiIns x y \<Longrightarrow> semiIns (CHR ''}'' # x) (CHR '';'' # CHR ''}'' # y)"

definition sameModulo :: "error + string \<Rightarrow> error + string \<Rightarrow> bool" where
  "sameModulo a b =
     (case a of
        Inl e \<Rightarrow> b = Inl e
      | Inr x \<Rightarrow> (case b of Inl e \<Rightarrow> False | Inr y \<Rightarrow> semiIns (noSpace x) (noSpace y)))"

definition fieldsRel :: "bool \<Rightarrow> error + string \<Rightarrow> error + string \<Rightarrow> bool" where
  "fieldsRel first a b =
     (case a of
        Inl e \<Rightarrow> b = Inl e
      | Inr c \<Rightarrow>
          (case b of
             Inl e \<Rightarrow> False
           | Inr d \<Rightarrow> (c = [] \<and> d = [])
               \<or> (\<exists>c0 z. c = (if first then [] else '';'') @ c0 \<and> noSpace d = z @ '';''
                     \<and> semiIns (noSpace c0) z)))"

lemma semiIns_refl [simp]: "semiIns x x"
  by (induction x) (auto intro: semiIns.intros)

lemma semiIns_append: "semiIns a b \<Longrightarrow> semiIns c d \<Longrightarrow> semiIns (a @ c) (b @ d)"
  by (induction rule: semiIns.induct) (auto intro: semiIns.intros)

lemma semiIns_close: "semiIns a b \<Longrightarrow> semiIns (a @ ''}'') (b @ '';}'')"
  by (induction rule: semiIns.induct) (auto intro: semiIns.intros)

lemma noSpace_append [simp]: "noSpace (a @ b) = noSpace a @ noSpace b"
  by (simp add: noSpace_def)

lemma noSpace_Nil [simp]: "noSpace [] = []"
  by (simp add: noSpace_def)

lemma noSpace_Cons: "noSpace (c # s) = (if isSpaceB c then noSpace s else c # noSpace s)"
  by (simp add: noSpace_def)

lemma noSpace_indent [simp]: "noSpace (indent level) = []"
  by (induction "nat level" arbitrary: level) (auto simp: indent_def noSpace_def isSpaceB_def)

lemma sameModulo_simps [simp]:
  "sameModulo (Inl e) b = (b = Inl e)"
  "sameModulo (Inr x) (Inr y) = semiIns (noSpace x) (noSpace y)"
  "sameModulo (Inr x) (Inl e) = False"
  by (simp_all add: sameModulo_def)

lemma sameModulo_refl [simp]: "sameModulo a a"
  by (cases a) simp_all

lemma fieldsRel_simps [simp]:
  "fieldsRel first (Inl e) b = (b = Inl e)"
  "fieldsRel first (Inr c) (Inl e) = False"
  by (simp_all add: fieldsRel_def)

lemma fieldsRel_Nil [simp]: "fieldsRel first (Inr []) (Inr [])"
  by (simp add: fieldsRel_def)

lemma ws_simps [simp]: "noSpace [CHR '';'', LF] = '';''" "noSpace ''='' = ''=''" "noSpace '';'' = '';''"
  "noSpace [LF] = []" "noSpace ''{'' = ''{''" "noSpace ''}'' = ''}''" "noSpace ''['' = ''[''" "noSpace '']'' = '']''"
  "noSpace '','' = '',''" "noSpace (LF # ''  '') = []"
  by (simp_all add: noSpace_def isSpaceB_def)

lemma semiIns_app_refl: "semiIns a b \<Longrightarrow> semiIns (k @ a) (k @ b)"
  by (intro semiIns_append semiIns_refl)

lemma fieldsRel_step:
  assumes r: "fieldsRel False (Inr rc) (Inr ri)"
    and s: "semiIns (noSpace sc) (noSpace si)"
    and ind: "noSpace ind = []"
  shows "fieldsRel first (Inr ((if \<not> first then '';'' else []) @ key @ ''='' @ sc @ rc))
           (Inr (ind @ key @ ''='' @ si @ [CHR '';'', LF] @ ri))"
proof -
  have eqc: "noSpace (CHR ''='' # x) = CHR ''='' # noSpace x"
    and sc: "noSpace (CHR '';'' # x) = CHR '';'' # noSpace x"
    and lf: "noSpace (LF # x) = noSpace x" for x
    by (simp_all add: noSpace_Cons isSpaceB_def)
  from r consider (e) "rc = []" "ri = []"
    | (n) c0 z where "rc = '';'' @ c0" "noSpace ri = z @ '';''" "semiIns (noSpace c0) z"
    by (auto simp: fieldsRel_def)
  then have "\<exists>c0 z. (if \<not> first then '';'' else []) @ key @ ''='' @ sc @ rc = (if first then [] else '';'') @ c0
      \<and> noSpace (ind @ key @ ''='' @ si @ [CHR '';'', LF] @ ri) = z @ '';''
      \<and> semiIns (noSpace c0) z"
  proof cases
    case e
    have "semiIns (noSpace (key @ ''='' @ sc)) (noSpace key @ ''='' @ noSpace si)"
      using s by (auto simp: eqc intro!: semiIns_app_refl semiIns.Keep)
    then show ?thesis using e ind
      by (rule_tac x = "key @ ''='' @ sc" in exI, rule_tac x = "noSpace key @ ''='' @ noSpace si" in exI)
         (simp add: eqc sc lf)
  next
    case n
    have "semiIns (noSpace si @ CHR '';'' # noSpace c0) (noSpace si @ CHR '';'' # z)"
      using n(3) by (intro semiIns_app_refl semiIns.Keep)
    moreover have "semiIns (noSpace sc @ CHR '';'' # noSpace c0) (noSpace si @ CHR '';'' # noSpace c0)"
      using s by (intro semiIns_append semiIns_refl)
    ultimately have "semiIns (noSpace sc @ CHR '';'' # noSpace c0) (noSpace si @ CHR '';'' # z)"
      using s n(3) by (intro semiIns_append semiIns.Keep)
    then have "semiIns (noSpace (key @ ''='' @ sc @ '';'' @ c0)) (noSpace key @ ''='' @ noSpace si @ '';'' @ z)"
      by (auto simp: eqc sc intro!: semiIns_app_refl semiIns.Keep)
    then show ?thesis using n ind
      by (rule_tac x = "key @ ''='' @ sc @ '';'' @ c0" in exI,
          rule_tac x = "noSpace key @ ''='' @ noSpace si @ '';'' @ z" in exI)
         (simp add: eqc sc lf)
  qed
  then show ?thesis by (simp add: fieldsRel_def)
qed

lemma wrap_rel:
  assumes "fieldsRel True a b" "noSpace ind = []"
  shows "sameModulo (case a of Inl e \<Rightarrow> Inl e | Inr body \<Rightarrow> Inr (''{'' @ body @ ''}''))
      (case b of Inl e \<Rightarrow> Inl e | Inr body \<Rightarrow> Inr (''{'' @ [LF] @ body @ ind @ ''}''))"
proof (cases a)
  case (Inl e)
  with assms show ?thesis by simp
next
  case (Inr c)
  with assms obtain d where d: "b = Inr d" by (cases b) simp_all
  have o: "noSpace (CHR ''{'' # x) = CHR ''{'' # noSpace x" for x
    by (simp add: noSpace_Cons isSpaceB_def)
  have l: "noSpace (LF # x) = noSpace x" for x
    by (simp add: noSpace_Cons isSpaceB_def)
  from assms(1) Inr d consider (e) "c = []" "d = []"
    | (n) z where "noSpace d = z @ '';''" "semiIns (noSpace c) z"
    by (auto simp: fieldsRel_def)
  then show ?thesis
  proof cases
    case e
    with Inr d assms(2) show ?thesis by (simp add: o l)
  next
    case n
    have "semiIns (noSpace c @ ''}'') (z @ '';}'')" using n(2) by (rule semiIns_close)
    then show ?thesis using Inr d assms(2) n(1)
      by (simp add: o l semiIns.Keep)
  qed
qed

lemma fields_rel:
  assumes v: "sameModulo sa sb"
    and r: "\<forall>s. sa = Inr s \<longrightarrow> fieldsRel False ra rb"
    and ind: "noSpace ind = []"
  shows "fieldsRel first
      (case sa of Inl e \<Rightarrow> Inl e
       | Inr s \<Rightarrow> (case ra of Inl e \<Rightarrow> Inl e
                    | Inr r \<Rightarrow> Inr ((if \<not> first then '';'' else []) @ key @ ''='' @ s @ r)))
      (case sb of Inl e \<Rightarrow> Inl e
       | Inr s \<Rightarrow> (case rb of Inl e \<Rightarrow> Inl e
                    | Inr r \<Rightarrow> Inr (ind @ key @ ''='' @ s @ [CHR '';'', LF] @ r)))"
proof (cases sa)
  case (Inl e)
  with v show ?thesis by simp
next
  case (Inr sc)
  with v obtain si where si: "sb = Inr si" "semiIns (noSpace sc) (noSpace si)"
    by (cases sb) simp_all
  from r Inr have rr: "fieldsRel False ra rb" by simp
  show ?thesis
  proof (cases ra)
    case (Inl e)
    with rr Inr si show ?thesis by simp
  next
    case rc: (Inr rc)
    with rr obtain ri where ri: "rb = Inr ri" by (cases rb) simp_all
    from fieldsRel_step[OF rr[unfolded rc ri] si(2) ind, of first key]
    show ?thesis by (simp add: Inr si rc ri)
  qed
qed

lemma elems_rel:
  assumes v: "sameModulo sa sb"
    and r: "\<forall>s. sa = Inr s \<longrightarrow> sameModulo ra rb"
  shows "sameModulo
      (case sa of Inl e \<Rightarrow> Inl e
       | Inr s \<Rightarrow> (case ra of Inl e \<Rightarrow> Inl e | Inr r \<Rightarrow> Inr (sep @ s @ r)))
      (case sb of Inl e \<Rightarrow> Inl e
       | Inr s \<Rightarrow> (case rb of Inl e \<Rightarrow> Inl e | Inr r \<Rightarrow> Inr (sep @ s @ r)))"
proof (cases sa)
  case (Inl e)
  with v show ?thesis by simp
next
  case (Inr sc)
  with v obtain si where si: "sb = Inr si" "semiIns (noSpace sc) (noSpace si)"
    by (cases sb) simp_all
  from r Inr have rr: "sameModulo ra rb" by simp
  show ?thesis
  proof (cases ra)
    case (Inl e)
    with rr Inr si show ?thesis by simp
  next
    case rc: (Inr rc)
    with rr obtain ri where ri: "rb = Inr ri" "semiIns (noSpace rc) (noSpace ri)"
      by (cases rb) simp_all
    show ?thesis using si(2) ri(2)
      by (simp add: Inr si rc ri semiIns_append)
  qed
qed

lemma bracket_rel:
  assumes "sameModulo a b"
  shows "sameModulo (case a of Inl e \<Rightarrow> Inl e | Inr body \<Rightarrow> Inr (''['' @ body @ '']''))
      (case b of Inl e \<Rightarrow> Inl e | Inr body \<Rightarrow> Inr (''['' @ body @ '']''))"
proof (cases a)
  case (Inl e)
  with assms show ?thesis by simp
next
  case (Inr x)
  with assms obtain y where y: "b = Inr y" "semiIns (noSpace x) (noSpace y)"
    by (cases b) simp_all
  have o: "noSpace (CHR ''['' # z) = CHR ''['' # noSpace z" for z
    by (simp add: noSpace_Cons isSpaceB_def)
  show ?thesis using y(2) by (simp add: Inr y o semiIns.Keep semiIns_append)
qed

lemma table_mode: "encodeStructSliceAsTable L t xs c = encodeStructSliceAsTable L t xs False"
  by (simp add: encodeStructSliceAsTable_def)

lemma modes:
  shows "compact \<Longrightarrow> sameModulo (encodeValue L v level compact) (encodeValue L v level False)"
    and "compact \<Longrightarrow> sameModulo (encodeKind L v level compact) (encodeKind L v level False)"
    and "compact \<Longrightarrow> fieldsRel first (encodeFields L fvs first level compact) (encodeFields L fvs first level False)"
    and "compact \<Longrightarrow> fieldsRel first (encodeEntries L es first level compact) (encodeEntries L es first level False)"
    and "compact \<Longrightarrow> sameModulo (encodeElems L xs i level compact) (encodeElems L xs i level False)"
proof (induction L v level compact and L v level compact and L fvs first level compact
    and L es first level compact and L xs i level compact
    rule: encodeValue_encodeKind_encodeFields_encodeEntries_encodeElems.induct)
  case (1 L v level compact)
  then show ?case by (cases v) (auto split: option.splits)
next
  case (2 L fvs level compact)
  then have "fieldsRel True (encodeFields L fvs True level True) (encodeFields L fvs True level False)"
    by simp
  from wrap_rel[OF this, of "indent (level - 1)"] 2(2) show ?case by (simp cong: sum.case_cong)
next
  case (3 L t es level compact)
  then have "fieldsRel True (encodeEntries L es True level True) (encodeEntries L es True level False)"
    by simp
  from wrap_rel[OF this, of "indent (level - 1)"] 3(2) show ?case by (simp cong: sum.case_cong)
next
  case (4 L t xs level compact)
  show ?case
  proof (cases "length xs \<noteq> 0 \<and> \<not> (case t of TStruct fts \<Rightarrow> True | _ \<Rightarrow> False)")
    case True
    with 4 have "sameModulo (encodeElems L xs 0 level True) (encodeElems L xs 0 level False)" by simp
    from bracket_rel[OF this] True 4(2) show ?thesis by simp
  next
    case False
    then show ?thesis using table_mode[of L t xs compact] by auto
  qed
next
  case (5 L t xs level compact)
  show ?case
  proof (cases "length xs \<noteq> 0 \<and> \<not> (case t of TStruct fts \<Rightarrow> True | _ \<Rightarrow> False)")
    case True
    with 5 have "sameModulo (encodeElems L xs 0 level True) (encodeElems L xs 0 level False)" by simp
    from bracket_rel[OF this] True 5(2) show ?thesis by simp
  next
    case False
    then show ?thesis using table_mode[of L t xs compact] by auto
  qed
next
  case (16 L fi fieldValue fvs first level compact)
  show ?case
  proof (cases "fexported fi")
    case False
    with 16 show ?thesis by simp
  next
    case True
    show ?thesis
    proof (cases "isZeroValue fieldValue")
      case z: True
      with 16 True have r: "\<forall>s. (Inr [] :: error + string) = Inr s \<longrightarrow>
          fieldsRel False (encodeFields L fvs False level True) (encodeFields L fvs False level False)"
        by simp
      from fields_rel[OF sameModulo_refl r noSpace_indent, of first "fieldKey L fi" level]
      show ?thesis using True z 16(5) by (simp add: Let_def cong: sum.case_cong)
    next
      case nz: False
      with 16 True have v: "sameModulo (encodeValue L fieldValue (level + 1) True)
          (encodeValue L fieldValue (level + 1) False)" by simp
      from 16 True nz have r: "\<forall>s. encodeValue L fieldValue (level + 1) True = Inr s \<longrightarrow>
          fieldsRel False (encodeFields L fvs False level True) (encodeFields L fvs False level False)"
        by simp
      from fields_rel[OF v r noSpace_indent, of first "fieldKey L fi" level]
      show ?thesis using True nz 16(5) by (simp add: Let_def cong: sum.case_cong)
    qed
  qed
next
  case (18 L key val es first level compact)
  show ?case
  proof (cases "isZeroValue val \<or> val = VIface None")
    case z: True
    with 18 have r: "\<forall>s. (Inr [] :: error + string) = Inr s \<longrightarrow>
        fieldsRel False (encodeEntries L es False level True) (encodeEntries L es False level False)"
      by simp
    from fields_rel[OF sameModulo_refl r noSpace_indent, of first key level]
    show ?thesis using z 18(4) by (simp add: Let_def cong: sum.case_cong)
  next
    case nz: False
    with 18 have v: "sameModulo (encodeValue L val (level + 1) True)
        (encodeValue L val (level + 1) False)" by simp
    from 18 nz have r: "\<forall>s. encodeValue L val (level + 1) True = Inr s \<longrightarrow>
        fieldsRel False (encodeEntries L es False level True) (encodeEntries L es False level False)"
      by simp
    from fields_rel[OF v r noSpace_indent, of first key level]
    show ?thesis using nz 18(4) by (simp add: Let_def cong: sum.case_cong)
  qed
next
  case (20 L x xs i level compact)
  then have v: "sameModulo (encodeValue L x level True) (encodeValue L x level False)" by simp
  from 20 have r: "\<forall>s. encodeValue L x level True = Inr s \<longrightarrow>
      sameModulo (encodeElems L xs (i + 1) level True) (encodeElems L xs (i + 1) level False)"
    by simp
  from elems_rel[OF v r, of "if i > 0 then '','' else []"]
  show ?case using 20(3) by (simp cong: sum.case_cong)
qed (simp_all add: encodeString_def)


lemma root_rel:
  assumes "sameModulo a b"
  shows "sameModulo (case a of Inl e \<Rightarrow> Inl e | Inr s \<Rightarrow> Inr (''{'' @ s @ ''}''))
      (case b of Inl e \<Rightarrow> Inl e | Inr s \<Rightarrow> Inr (''{'' @ LF # ''  '' @ s @ [LF] @ ''}''))"
proof (cases a)
  case (Inl e)
  with assms show ?thesis by simp
next
  case (Inr x)
  with assms obtain y where y: "b = Inr y" "semiIns (noSpace x) (noSpace y)"
    by (cases b) simp_all
  have o: "noSpace (CHR ''{'' # z) = CHR ''{'' # noSpace z"
    and l: "noSpace (LF # z) = noSpace z"
    and sp: "noSpace (CHR '' '' # z) = noSpace z" for z
    by (simp_all add: noSpace_Cons isSpaceB_def)
  show ?thesis using y(2) by (simp add: Inr y o l sp semiIns.Keep semiIns_append)
qed

text \<open>
  The two modes do not differ by white space alone: the indented text of a \<^verbatim>\<open>Person\<close> has a
  \<^verbatim>\<open>;\<close> behind the last field, the compact text has none.
\<close>

theorem modes_differ_by_terminator:
  \<open>Marshal exampleLib (Person ''John'' 12 ''NYC'') = Inr ''{name="John";age=12;addr="NYC"}''
   \<and> MarshalBeautify exampleLib (Person ''John'' 12 ''NYC'')
       = Inr (''{'' @ [LF] @ ''name="John";'' @ [LF] @ ''age=12;'' @ [LF] @ ''addr="NYC";'' @ [LF] @ ''}'')
   \<and> noSpace ''{name="John";age=12;addr="NYC"}''
       \<noteq> noSpace (''{'' @ [LF] @ ''name="John";'' @ [LF] @ ''age=12;'' @ [LF] @ ''addr="NYC";'' @ [LF] @ ''}'')\<close>
  by code_simp

text \<open>
  Claim C4, with the terminators. A value of a map carries its entries in the order in
  which the encoder meets them; both modes are run on the same order. For every value,
  \<^verbatim>\<open>Marshal\<close> and \<^verbatim>\<open>MarshalBeautify\<close> fail with the same error, or both succeed, and then the
  indented text without its white space is the compact text without its white space with
  a \<^verbatim>\<open>;\<close> put in front of some closing braces (the terminator of the last entry of a
  record or a map): nothing else is added, dropped or moved.
\<close>

theorem Marshal_modes:
  "case Marshal L v of
     Inl e \<Rightarrow> MarshalBeautify L v = Inl e
   | Inr a \<Rightarrow> (\<exists>b. MarshalBeautify L v = Inr b \<and> semiIns (noSpace a) (noSpace b))"
proof -
  let ?rv = "case v of VPtr t (Some x) \<Rightarrow> x | _ \<Rightarrow> v"
  have "sameModulo (Marshal L v) (MarshalBeautify L v)"
  proof (cases "case ?rv of VMap t es \<Rightarrow> True | VStruct fvs \<Rightarrow> True | _ \<Rightarrow> False")
    case True
    then show ?thesis using modes(1)[of True L ?rv 0]
      by (simp add: Marshal_def MarshalBeautify_def marshalWithCompact_def Let_def del: encodeValue.simps)
  next
    case False
    then show ?thesis using root_rel[OF modes(1)[of True L ?rv 1]]
      by (simp add: Marshal_def MarshalBeautify_def marshalWithCompact_def Let_def
          del: encodeValue.simps cong: sum.case_cong)
  qed
  then show ?thesis by (cases "Marshal L v"; cases "MarshalBeautify L v") simp_all
qed

theorem Marshal_modes_witness:
  \<open>Marshal exampleLib (Person ''John'' 12 ''NYC'') = Inr ''{name="John";age=12;addr="NYC"}''
   \<and> MarshalBeautify exampleLib (Person ''John'' 12 ''NYC'')
       = Inr (''{'' @ [LF] @ ''name="John";'' @ [LF] @ ''age=12;'' @ [LF] @ ''addr="NYC";'' @ [LF] @ ''}'')
   \<and> semiIns ''{name="John";age=12;addr="NYC"}'' ''{name="John";age=12;addr="NYC";}''\<close>
proof -
  have a: \<open>Marshal exampleLib (Person ''John'' 12 ''NYC'') = Inr ''{name="John";age=12;addr="NYC"}''\<close>
    by code_simp
  have b: \<open>MarshalBeautify exampleLib (Person ''John'' 12 ''NYC'')
       = Inr (''{'' @ [LF] @ ''name="John";'' @ [LF] @ ''age=12;'' @ [LF] @ ''addr="NYC";'' @ [LF] @ ''}'')\<close>
    by code_simp
  have na: \<open>noSpace ''{name="John";age=12;addr="NYC"}'' = ''{name="John";age=12;addr="NYC"}''\<close>
    by code_simp
  have nb: \<open>noSpace (''{'' @ [LF] @ ''name="John";'' @ [LF] @ ''age=12;'' @ [LF] @ ''addr="NYC";'' @ [LF] @ ''}'')
      = ''{name="John";age=12;addr="NYC";}''\<close>
    by code_simp
  from Marshal_modes[of exampleLib "Person ''John'' 12 ''NYC''"]
  have \<open>semiIns ''{name="John";age=12;addr="NYC"}'' ''{name="John";age=12;addr="NYC";}''\<close>
    unfolding a b sum.case by (simp only: na nb ex_simps sum.inject simp_thms)
  with a b show ?thesis by (intro conjI)
qed

section \<open>Encoding and decoding again\<close>

text \<open>
  Claim C1 says that decoding what \<^verbatim>\<open>Marshal\<close> wrote gives the value back. The code does not
  do that for every string. A string with a line feed is written between triple quotes
  as it is, and the reader of a triple-quoted string ends at the first three quotes: the
  name \<^verbatim>\<open>a\<close>, line feed, \<^verbatim>\<open>"\<close> is written as \<^verbatim>\<open>"""\<close>, \<^verbatim>\<open>a\<close>, line feed, \<^verbatim>\<open>""""\<close>, the reader
  returns \<^verbatim>\<open>a\<close>, line feed, and the quote that is left makes the decoding fail. A string
  with a control character is written by \<^verbatim>\<open>strconv.Quote\<close> with an escape that
  \<^verbatim>\<open>parseString\<close> does not know: the name \<^verbatim>\<open>a\<close>, byte 1 is written as \<^verbatim>\<open>"a\x01"\<close> and decoded,
  with no error, as the four bytes \<^verbatim>\<open>ax01\<close>. Both hold for every library and for any fuel
  from 6 on.
\<close>

theorem Marshal_Unmarshal_string_not_restored:
  "Marshal L (Person [CHR ''a'', LF, dq] 0 [])
     = Inr (''{name='' @ [dq, dq, dq, CHR ''a'', LF, dq, dq, dq, dq] @ '';age=;addr=}'')
   \<and> Unmarshal (Suc (Suc (Suc (Suc (Suc (Suc m))))))  L
        (''{name='' @ [dq, dq, dq, CHR ''a'', LF, dq, dq, dq, dq] @ '';age=;addr=}'')
        (VPtr PersonT (Some (zeroVal PersonT)))
     = Some (Inl (ExpectedEq [dq]))
   \<and> Marshal L (Person [CHR ''a'', CHR 0x01] 0 [])
     = Inr (''{name='' @ [dq, CHR ''a'', bsl, CHR ''x'', CHR ''0'', CHR ''1'', dq] @ '';age=;addr=}'')
   \<and> Unmarshal (Suc (Suc (Suc (Suc (Suc (Suc m)))))) L
        (''{name='' @ [dq, CHR ''a'', bsl, CHR ''x'', CHR ''0'', CHR ''1'', dq] @ '';age=;addr=}'')
        (VPtr PersonT (Some (zeroVal PersonT)))
     = Some (Inr (Person ''ax01'' 0 []))"
  by code_simp

end
